theory Spec2Isabelle
  imports Complex_Main "HOL-Library.Word"
begin

section \<open>Audio visualizer plugin: data model\<close>

text \<open>
  An embedding of \<^verbatim>\<open>plugins/audio-visualizer-luna/src/index.ts\<close>. The module keeps its
  state in top-level \<^verbatim>\<open>let\<close> variables; here they are the fields of one record that every
  function takes and returns. JavaScript numbers (IEEE doubles) are idealised as
  \<^typ>\<open>real\<close>; the one place where the source can produce \<^verbatim>\<open>NaN\<close> (a typed-array read out
  of range) is a \<^typ>\<open>real option\<close> with \<^term>\<open>None\<close> for \<^verbatim>\<open>NaN\<close>. A \<^verbatim>\<open>Uint8Array\<close> is a list of
  8-bit words.
\<close>

datatype exn = TypeError string | ReferenceError string | DOMException string | Error string

datatype completion = Normal | Throw exn

datatype position = Left | Right

datatype visualizerType = Bars | Waveform | Circular

text \<open>
  Modelled from the spec: the settings object of \<^verbatim>\<open>./Settings\<close>, which is not among the
  sources at hand. The settings provider exposes a bar count (an integer), a bar colour (a
  string) and a bar-rounding flag (a boolean), read afresh at every use.
\<close>

record settings =
  settings_barCount :: nat
  settings_barColor :: string
  settings_barRounding :: bool

record config =
  enabled :: bool
  position :: position
  width :: real
  height :: real
  barCount :: nat
  color :: string
  barRounding :: bool
  sensitivity :: real
  smoothing :: real
  visualizerType :: visualizerType

definition config :: "settings \<Rightarrow> config" where
  "config stg =
     \<lparr> enabled = True,
       position = Left,
       width = 200,
       height = 40,
       barCount = settings_barCount stg,
       color = settings_barColor stg,
       barRounding = settings_barRounding stg,
       sensitivity = 3 / 2,
       smoothing = 4 / 5,
       visualizerType = Bars \<rparr>"

subsection \<open>The host: media elements, Web Audio, canvas\<close>

datatype capture = Unsupported | Returns "nat option"

record element =
  eid :: nat
  tagName :: string
  src :: string
  currentSrc :: string
  captureStream :: capture
  mozCaptureStream :: capture

datatype site = Direct | Fallback

datatype api =
    NewAudioContext
  | CreateAnalyser
  | CreateMediaElementSource
  | SourceConnect
  | AnalyserConnect site
  | CaptureStream
  | MozCaptureStream
  | CreateMediaStreamSource
  | StreamSourceConnect
  | Resume
  | GetByteFrequencyData
  | ClearRect
  | FillRect
  | BeginPath
  | RoundRect
  | Fill
  | RequestAnimationFrame
  | CancelAnimationFrame
  | SourceDisconnect
  | ContextClose

datatype ac_state = Suspended | Running | Closed

text \<open>
  What the page and the browser answer during one call: which host calls throw
  (\<open>faults\<close>), what the DOM queries find, the state of the audio context, the analyser's
  current byte frequency data and the play-state signal.
\<close>

record host =
  faults :: "api \<Rightarrow> exn option"
  querySelector :: "string \<Rightarrow> element option"
  querySelectorAll :: "element list"
  searchField :: bool
  searchContainer :: bool
  getContext2d :: bool
  contextState :: ac_state
  frequencyData :: "8 word list"
  playing :: bool

datatype draw_call =
    FillRectCall (dc_x: real) (dc_y: "real option") (dc_w: real) (dc_h: "real option")
  | RoundRectCall (dc_x: real) (dc_y: "real option") (dc_w: real) (dc_h: "real option")
      (dc_radius: real)

record canvas_el =
  canvas_width :: real
  canvas_height :: real

record ctx2d =
  fillStyle :: string
  strokeStyle :: string
  path :: "draw_call option"
  painted :: "draw_call list"

record analyserNode =
  fftSize :: nat
  smoothingTimeConstant :: real

datatype level = Info | Warn | Err

record state =
  audioContext :: "unit option"
  analyser :: "analyserNode option"
  audioSource :: "nat option"
  dataArray :: "8 word list option"
  animationId :: "nat option"
  currentAudioElement :: "element option"
  isSourceConnected :: bool
  visualizerContainer :: "position option"
  canvas :: "canvas_el option"
  canvasContext :: "ctx2d option"
  waveTime :: real
  hasTriedInitialization :: bool
  checkCount :: nat
  rafSeq :: nat
  rafQueue :: "nat list"
  apiCalls :: "api list"
  console :: "(level \<times> string) list"

definition log :: "string \<Rightarrow> state \<Rightarrow> state" where
  "log message s = s\<lparr>console := console s @ [(Info, ''[Audio Visualizer] '' @ message)]\<rparr>"

definition warn :: "string \<Rightarrow> state \<Rightarrow> state" where
  "warn message s = s\<lparr>console := console s @ [(Warn, ''[Audio Visualizer] '' @ message)]\<rparr>"

definition error :: "string \<Rightarrow> state \<Rightarrow> state" where
  "error message s = s\<lparr>console := console s @ [(Err, ''[Audio Visualizer] '' @ message)]\<rparr>"

fun exn_text :: "exn \<Rightarrow> string" where
  "exn_text (TypeError m) = ''TypeError: '' @ m"
| "exn_text (ReferenceError m) = ''ReferenceError: '' @ m"
| "exn_text (DOMException m) = ''DOMException: '' @ m"
| "exn_text (Error m) = ''Error: '' @ m"

definition console_error :: "exn \<Rightarrow> state \<Rightarrow> state" where
  "console_error e s = s\<lparr>console := console s @ [(Err, exn_text e)]\<rparr>"

definition called :: "api \<Rightarrow> state \<Rightarrow> state" where
  "called a s = s\<lparr>apiCalls := apiCalls s @ [a]\<rparr>"

definition initial_state :: state where
  "initial_state =
     \<lparr> audioContext = None, analyser = None, audioSource = None, dataArray = None,
       animationId = None, currentAudioElement = None, isSourceConnected = False,
       visualizerContainer = None, canvas = None, canvasContext = None, waveTime = 0,
       hasTriedInitialization = False, checkCount = 0, rafSeq = 0, rafQueue = [],
       apiCalls = [], console = [] \<rparr>"


section \<open>Host calls and control flow\<close>

text \<open>
  A host call is recorded in \<open>apiCalls\<close> and throws where the host says so. A function body
  is a chain of steps; a step that throws ends the chain with the state reached so far.
\<close>

definition hostcall :: "host \<Rightarrow> api \<Rightarrow> state \<Rightarrow> completion \<times> state" where
  "hostcall h a s = (case faults h a of None \<Rightarrow> (Normal, called a s)
                                      | Some e \<Rightarrow> (Throw e, called a s))"

definition andThen ::
  "completion \<times> state \<Rightarrow> (state \<Rightarrow> completion \<times> state) \<Rightarrow> completion \<times> state" where
  "andThen r f = (case r of (Normal, s) \<Rightarrow> f s | (Throw e, s) \<Rightarrow> (Throw e, s))"

definition ctx_update :: "(ctx2d \<Rightarrow> ctx2d) \<Rightarrow> state \<Rightarrow> state" where
  "ctx_update f s = s\<lparr>canvasContext := map_option f (canvasContext s)\<rparr>"

section \<open>Drawing\<close>

definition fillRect ::
  "host \<Rightarrow> real \<Rightarrow> real option \<Rightarrow> real \<Rightarrow> real option \<Rightarrow> state \<Rightarrow> completion \<times> state" where
  "fillRect h x y w ht s =
     andThen (hostcall h FillRect s)
       (\<lambda>s. (Normal, ctx_update (\<lambda>c. c\<lparr>painted := painted c @ [FillRectCall x y w ht]\<rparr>) s))"

definition clearRect :: "host \<Rightarrow> state \<Rightarrow> completion \<times> state" where
  "clearRect h s =
     andThen (hostcall h ClearRect s)
       (\<lambda>s. (Normal, ctx_update (\<lambda>c. c\<lparr>painted := []\<rparr>) s))"

definition drawRoundedRect ::
  "host \<Rightarrow> real \<Rightarrow> real option \<Rightarrow> real \<Rightarrow> real option \<Rightarrow> real \<Rightarrow> state \<Rightarrow> completion \<times> state"
  where
  "drawRoundedRect h x y w ht radius s =
     andThen (hostcall h BeginPath s) (\<lambda>s.
     andThen (hostcall h RoundRect (ctx_update (\<lambda>c. c\<lparr>path := None\<rparr>) s)) (\<lambda>s.
     andThen (hostcall h Fill
                (ctx_update (\<lambda>c. c\<lparr>path := Some (RoundRectCall x y w ht radius)\<rparr>) s)) (\<lambda>s.
       (Normal, ctx_update (\<lambda>c. c\<lparr>painted := painted c @ (case path c of None \<Rightarrow> []
                                                              | Some r \<Rightarrow> [r])\<rparr>) s))))"

text \<open>The body of the \<^verbatim>\<open>for\<close> loop of \<^verbatim>\<open>drawScrollingWave\<close>, from index \<open>i\<close> on.\<close>

function drawScrollingWave_loop ::
  "host \<Rightarrow> config \<Rightarrow> canvas_el \<Rightarrow> real \<Rightarrow> real \<Rightarrow> nat \<Rightarrow> state \<Rightarrow> completion \<times> state" where
  "drawScrollingWave_loop h cfg cv barWidth maxHeight i s =
     (if i < barCount cfg then
        (let x = real i / real (barCount cfg);
             wave1 = sin (x * pi * 2 + waveTime s) * (3 / 10);
             wave2 = sin (x * pi * 4 + waveTime s * (13 / 10)) * (2 / 10);
             wave3 = sin (x * pi * 6 + waveTime s * (7 / 10)) * (1 / 10);
             combinedWave = (wave1 + wave2 + wave3 + 1) / 2;
             travelWave = sin (x * pi * 3 - waveTime s * 2) * (1 / 2) + 1 / 2;
             barHeight = maxHeight * combinedWave * travelWave * (8 / 10) + 2;
             xPos = real i * barWidth;
             yPos = (canvas_height cv - barHeight) / 2
         in case (if barRounding cfg
                  then drawRoundedRect h xPos (Some yPos) (barWidth - 1) (Some barHeight) 2 s
                  else fillRect h xPos (Some yPos) (barWidth - 1) (Some barHeight) s) of
              (Normal, s') \<Rightarrow> drawScrollingWave_loop h cfg cv barWidth maxHeight (Suc i) s'
            | (Throw e, s') \<Rightarrow> (Throw e, s'))
      else (Normal, s))"
  by pat_completeness auto
termination
  by (relation "measure (\<lambda>(h, cfg, cv, barWidth, maxHeight, i, s). barCount cfg - i)") auto

declare drawScrollingWave_loop.simps [simp del]

definition drawScrollingWave :: "host \<Rightarrow> config \<Rightarrow> state \<Rightarrow> completion \<times> state" where
  "drawScrollingWave h cfg s =
     (case (canvasContext s, canvas s) of
        (Some c, Some cv) \<Rightarrow>
          (let s1 = s\<lparr>waveTime := waveTime s + 5 / 100\<rparr>;
               barWidth = canvas_width cv / real (barCount cfg);
               maxHeight = canvas_height cv * (6 / 10);
               s2 = ctx_update (\<lambda>c. c\<lparr>fillStyle := color cfg\<rparr>) s1
           in drawScrollingWave_loop h cfg cv barWidth maxHeight 0 s2)
      | _ \<Rightarrow> (Normal, s))"

text \<open>
  A read of a \<^verbatim>\<open>Uint8Array\<close>: the byte as a number, or \<^verbatim>\<open>undefined\<close> out of range, which
  the arithmetic of \<^verbatim>\<open>drawBars\<close> turns into \<^verbatim>\<open>NaN\<close>.
\<close>

definition readByte :: "8 word list \<Rightarrow> nat \<Rightarrow> real option" where
  "readByte arr i = (if i < length arr then Some (real (unat (arr ! i))) else None)"

function drawBars_loop ::
  "host \<Rightarrow> config \<Rightarrow> canvas_el \<Rightarrow> 8 word list \<Rightarrow> real \<Rightarrow> real \<Rightarrow> nat \<Rightarrow> state
     \<Rightarrow> completion \<times> state" where
  "drawBars_loop h cfg cv arr barWidth heightScale i s =
     (if i < barCount cfg then
        (let dataIndex = nat \<lfloor>real i * (real (length arr) / real (barCount cfg))\<rfloor>;
             barHeight = map_option (\<lambda>v. v * sensitivity cfg * heightScale) (readByte arr dataIndex);
             x = real i * barWidth;
             y = map_option (\<lambda>bh. canvas_height cv - bh) barHeight
         in case (if barRounding cfg
                  then drawRoundedRect h x y (barWidth - 1) barHeight 2 s
                  else fillRect h x y (barWidth - 1) barHeight s) of
              (Normal, s') \<Rightarrow> drawBars_loop h cfg cv arr barWidth heightScale (Suc i) s'
            | (Throw e, s') \<Rightarrow> (Throw e, s'))
      else (Normal, s))"
  by pat_completeness auto
termination
  by (relation "measure (\<lambda>(h, cfg, cv, arr, barWidth, heightScale, i, s). barCount cfg - i)") auto

declare drawBars_loop.simps [simp del]

definition drawBars :: "host \<Rightarrow> config \<Rightarrow> state \<Rightarrow> completion \<times> state" where
  "drawBars h cfg s =
     (case (canvasContext s, dataArray s, canvas s) of
        (Some c, Some arr, Some cv) \<Rightarrow>
          (let barWidth = canvas_width cv / real (barCount cfg);
               heightScale = canvas_height cv / 255;
               s1 = ctx_update (\<lambda>c. c\<lparr>fillStyle := color cfg\<rparr>) s
           in drawBars_loop h cfg cv arr barWidth heightScale 0 s1)
      | _ \<Rightarrow> (Normal, s))"

text \<open>
  \<^verbatim>\<open>drawWaveform\<close> and \<^verbatim>\<open>drawCircular\<close> are commented out in the source, while
  \<^verbatim>\<open>animate\<close> still calls them: the call of an undeclared name is a \<^verbatim>\<open>ReferenceError\<close>.
\<close>

definition drawWaveform :: "state \<Rightarrow> completion \<times> state" where
  "drawWaveform s = (Throw (ReferenceError ''drawWaveform is not defined''), s)"

definition drawCircular :: "state \<Rightarrow> completion \<times> state" where
  "drawCircular s = (Throw (ReferenceError ''drawCircular is not defined''), s)"

section \<open>The render loop\<close>

text \<open>
  \<^verbatim>\<open>getByteFrequencyData\<close> copies the analyser's current data over the array, as far as
  both reach.
\<close>

definition getByteFrequencyData :: "host \<Rightarrow> 8 word list \<Rightarrow> 8 word list" where
  "getByteFrequencyData h arr =
     take (length arr) (frequencyData h) @ drop (length (frequencyData h)) arr"

definition avgVolume :: "8 word list \<Rightarrow> real" where
  "avgVolume arr = real (foldl (\<lambda>sum val. sum + unat val) 0 arr) / real (length arr)"

text \<open>
  The flag \<^verbatim>\<open>hasRealAudio\<close> of \<^verbatim>\<open>animate\<close>, computed from the array just sampled. With an
  empty array the source divides 0 by 0 and compares \<^verbatim>\<open>NaN > 5\<close>, which is false; in HOL
  \<open>0 / 0 = 0\<close> and the comparison is false as well.
\<close>

definition hasRealAudio :: "state \<Rightarrow> bool" where
  "hasRealAudio s =
     (case (analyser s, dataArray s) of
        (Some an, Some arr) \<Rightarrow> avgVolume arr > 5
      | _ \<Rightarrow> False)"

definition requestAnimationFrame :: "host \<Rightarrow> state \<Rightarrow> completion \<times> state" where
  "requestAnimationFrame h s =
     andThen (hostcall h RequestAnimationFrame s)
       (\<lambda>s. (Normal, s\<lparr>rafSeq := Suc (rafSeq s), rafQueue := rafQueue s @ [Suc (rafSeq s)],
                        animationId := Some (Suc (rafSeq s))\<rparr>))"

definition cancelAnimationFrame :: "nat \<Rightarrow> state \<Rightarrow> state" where
  "cancelAnimationFrame n s = (called CancelAnimationFrame s)\<lparr>rafQueue := removeAll n (rafQueue s)\<rparr>"

definition animate :: "host \<Rightarrow> config \<Rightarrow> state \<Rightarrow> completion \<times> state" where
  "animate h cfg s =
     (case (canvasContext s, canvas s) of
        (Some c, Some cv) \<Rightarrow>
          (let s1 = ctx_update (\<lambda>c. c\<lparr>fillStyle := color cfg, strokeStyle := color cfg\<rparr>) s;
               sampled =
                 (case (analyser s1, dataArray s1) of
                    (Some an, Some arr) \<Rightarrow>
                      andThen (hostcall h GetByteFrequencyData s1)
                        (\<lambda>s. (Normal, s\<lparr>dataArray := Some (getByteFrequencyData h arr)\<rparr>))
                  | _ \<Rightarrow> (Normal, s1))
           in andThen sampled (\<lambda>s2.
                andThen (clearRect h s2) (\<lambda>s3.
                   andThen
                     (if hasRealAudio s2 \<and> analyser s3 \<noteq> None \<and> dataArray s3 \<noteq> None then
                        (case visualizerType cfg of
                           Bars \<Rightarrow> drawBars h cfg s3
                         | Waveform \<Rightarrow> drawWaveform s3
                         | Circular \<Rightarrow> drawCircular s3)
                      else drawScrollingWave h cfg s3)
                     (requestAnimationFrame h))))
      | _ \<Rightarrow> (Normal, s\<lparr>animationId := None\<rparr>))"

section \<open>The visualizer's UI\<close>

text \<open>
  DOM queries and element creation are taken not to throw. \<open>visualizerContainer\<close> records
  the side of the search bar on which the container was inserted; a new 2D context starts with
  the canvas default styles and nothing painted.
\<close>

definition removeVisualizerUI :: "state \<Rightarrow> state" where
  "removeVisualizerUI s =
     (if visualizerContainer s \<noteq> None
      then s\<lparr>visualizerContainer := None, canvas := None, canvasContext := None\<rparr>
      else s)"

definition createVisualizerUI :: "host \<Rightarrow> config \<Rightarrow> state \<Rightarrow> state" where
  "createVisualizerUI h cfg s =
     (let s1 = removeVisualizerUI s in
      if \<not> enabled cfg then s1
      else if \<not> searchField h then warn ''Search field not found'' s1
      else if \<not> searchContainer h then warn ''Search container not found'' s1
      else s1\<lparr>visualizerContainer := Some (position cfg),
              canvas := Some \<lparr>canvas_width = width cfg, canvas_height = height cfg\<rparr>,
              canvasContext :=
                (if getContext2d h
                 then Some \<lparr>fillStyle = ''#000000'', strokeStyle = ''#000000'', path = None,
                            painted = []\<rparr>
                 else None)\<rparr>)"

section \<open>Acquiring the audio signal\<close>

definition selectors :: "string list" where
  \<open>selectors = [''audio'', ''video'', ''audio[data-test]'', ''[data-test="audio-player"] audio'']\<close>

fun findBySelectors :: "host \<Rightarrow> string list \<Rightarrow> element option" where
  "findBySelectors h [] = None"
| "findBySelectors h (selector # rest) =
     (case querySelector h selector of
        Some element \<Rightarrow>
          (if tagName element = ''AUDIO'' \<or> tagName element = ''VIDEO'' then Some element
           else findBySelectors h rest)
      | None \<Rightarrow> findBySelectors h rest)"

definition findAudioElement :: "host \<Rightarrow> element option" where
  "findAudioElement h =
     (case findBySelectors h selectors of
        Some element \<Rightarrow> Some element
      | None \<Rightarrow> find (\<lambda>audioEl. src audioEl \<noteq> [] \<or> currentSrc audioEl \<noteq> []) (querySelectorAll h))"

text \<open>
  \<^verbatim>\<open>audioElement !== currentAudioElement\<close> compares references; elements are identified by
  \<open>eid\<close>.
\<close>

definition differs :: "element \<Rightarrow> element option \<Rightarrow> bool" where
  "differs audioElement current =
     (case current of None \<Rightarrow> True | Some cur \<Rightarrow> eid audioElement \<noteq> eid cur)"

text \<open>The first attempt: the three statements of the inner \<^verbatim>\<open>try\<close> block and its log line.\<close>

definition tapDirect :: "host \<Rightarrow> element \<Rightarrow> state \<Rightarrow> completion \<times> state" where
  "tapDirect h audioElement s =
     andThen (hostcall h CreateMediaElementSource s) (\<lambda>s.
     andThen (hostcall h SourceConnect (s\<lparr>audioSource := Some (eid audioElement)\<rparr>)) (\<lambda>s.
     andThen (hostcall h (AnalyserConnect Direct) s) (\<lambda>s.
       (Normal, log ''Connected via MediaElementSource'' s))))"

text \<open>
  \<^verbatim>\<open>el.captureStream?.() || el.mozCaptureStream?.()\<close>: a method that the element does not
  have gives \<^verbatim>\<open>undefined\<close>; the second is called only when the first gave nothing.
\<close>

definition callCapture ::
  "host \<Rightarrow> api \<Rightarrow> capture \<Rightarrow> state \<Rightarrow> (exn + nat option) \<times> state" where
  "callCapture h a cap s =
     (case cap of
        Unsupported \<Rightarrow> (Inr None, s)
      | Returns r \<Rightarrow>
          (case hostcall h a s of
             (Normal, s') \<Rightarrow> (Inr r, s')
           | (Throw e, s') \<Rightarrow> (Inl e, s')))"

definition obtainStream :: "host \<Rightarrow> element \<Rightarrow> state \<Rightarrow> (exn + nat option) \<times> state" where
  "obtainStream h audioElement s =
     (case callCapture h CaptureStream (captureStream audioElement) s of
        (Inl e, s') \<Rightarrow> (Inl e, s')
      | (Inr (Some stream), s') \<Rightarrow> (Inr (Some stream), s')
      | (Inr None, s') \<Rightarrow> callCapture h MozCaptureStream (mozCaptureStream audioElement) s')"

definition tapStream :: "host \<Rightarrow> element \<Rightarrow> state \<Rightarrow> completion \<times> state" where
  "tapStream h audioElement s =
     (case obtainStream h audioElement s of
        (Inl e, s') \<Rightarrow> (Throw e, s')
      | (Inr None, s') \<Rightarrow> (Throw (Error ''captureStream not supported''), s')
      | (Inr (Some stream), s') \<Rightarrow>
          andThen (hostcall h CreateMediaStreamSource s') (\<lambda>s.
          andThen (hostcall h StreamSourceConnect s) (\<lambda>s.
          andThen (hostcall h (AnalyserConnect Fallback) s) (\<lambda>s.
            (Normal, log ''Connected via captureStream'' s)))))"

text \<open>The rest of the \<^verbatim>\<open>try\<close> block, after the connection attempt.\<close>

definition resumeAndShow :: "host \<Rightarrow> config \<Rightarrow> state \<Rightarrow> completion \<times> state" where
  "resumeAndShow h cfg s =
     (let s1 = (if contextState h = Suspended then called Resume s else s);
          s2 = (if visualizerContainer s1 = None then createVisualizerUI h cfg s1 else s1)
      in if animationId s2 = None then animate h cfg s2 else (Normal, s2))"

definition initializeAudioVisualizer_try :: "host \<Rightarrow> config \<Rightarrow> state \<Rightarrow> completion \<times> state"
  where
  "initializeAudioVisualizer_try h cfg s =
     (case findAudioElement h of
        None \<Rightarrow> (Normal, s)
      | Some audioElement \<Rightarrow>
          andThen
            (if audioContext s = None
             then andThen (hostcall h NewAudioContext s)
                    (\<lambda>s. (Normal, log ''Created AudioContext'' (s\<lparr>audioContext := Some ()\<rparr>)))
             else (Normal, s)) (\<lambda>s.
          andThen
            (if analyser s = None
             then andThen (hostcall h CreateAnalyser s)
                    (\<lambda>s. (Normal,
                       log ''Created AnalyserNode''
                         (s\<lparr>analyser := Some \<lparr>fftSize = 512,
                                                smoothingTimeConstant = smoothing cfg\<rparr>,
                            dataArray := Some (replicate (512 div 2) 0)\<rparr>)))
             else (Normal, s)) (\<lambda>s.
            if \<not> isSourceConnected s \<and> differs audioElement (currentAudioElement s) then
              (case tapDirect h audioElement s of
                 (Normal, s1) \<Rightarrow>
                   resumeAndShow h cfg
                     (s1\<lparr>currentAudioElement := Some audioElement, isSourceConnected := True\<rparr>)
               | (Throw err, s1) \<Rightarrow>
                   (case tapStream h audioElement
                           (log ''MediaElementSource failed, attempting captureStream fallback...''
                              s1) of
                      (Normal, s2) \<Rightarrow>
                        resumeAndShow h cfg
                          (s2\<lparr>currentAudioElement := Some audioElement,
                              isSourceConnected := True\<rparr>)
                    | (Throw streamErr, s2) \<Rightarrow>
                        (Normal,
                         console_error streamErr
                           (error ''Failed to hook audio for visualization on this platform''
                              s2))))
            else resumeAndShow h cfg s)))"

text \<open>
  The function is \<^verbatim>\<open>async\<close> without any \<^verbatim>\<open>await\<close>: it runs to its end when called, and
  the completion returned here is the settlement of its promise.
\<close>

definition initializeAudioVisualizer :: "host \<Rightarrow> config \<Rightarrow> state \<Rightarrow> completion \<times> state" where
  "initializeAudioVisualizer h cfg s =
     (case initializeAudioVisualizer_try h cfg s of
        (Normal, s') \<Rightarrow> (Normal, s')
      | (Throw err, s') \<Rightarrow> (Normal, console_error err s'))"

section \<open>Reconfiguration and clean-up\<close>

definition updateAudioVisualizer :: "host \<Rightarrow> config \<Rightarrow> state \<Rightarrow> state" where
  "updateAudioVisualizer h cfg s =
     (let s1 = (if analyser s \<noteq> None
                then s\<lparr>analyser := Some \<lparr>fftSize = 512, smoothingTimeConstant = smoothing cfg\<rparr>,
                       dataArray := Some (replicate (512 div 2) 0)\<rparr>
                else s);
          s2 = (if canvas s1 \<noteq> None
                then s1\<lparr>canvas := Some \<lparr>canvas_width = width cfg, canvas_height = height cfg\<rparr>\<rparr>
                else s1)
      in createVisualizerUI h cfg s2)"

definition cleanupAudioVisualizer :: "state \<Rightarrow> state" where
  "cleanupAudioVisualizer s =
     removeVisualizerUI
       (case animationId s of
          Some n \<Rightarrow> (cancelAnimationFrame n s)\<lparr>animationId := None\<rparr>
        | None \<Rightarrow> s)"

definition completeCleanup :: "host \<Rightarrow> state \<Rightarrow> completion \<times> state" where
  "completeCleanup h s =
     (let s1 = log ''Complete cleanup - plugin unloading'' s;
          s2 = (case animationId s1 of
                  Some n \<Rightarrow> (cancelAnimationFrame n s1)\<lparr>animationId := None\<rparr>
                | None \<Rightarrow> s1);
          s3 = removeVisualizerUI s2;
          s4 = (if audioSource s3 \<noteq> None
                then (case hostcall h SourceDisconnect s3 of
                        (Normal, s') \<Rightarrow> log ''Disconnected audio source completely'' s'
                      | (Throw e, s') \<Rightarrow> log ''Audio source already disconnected'' s')
                else s3)
      in andThen
           (if audioContext s4 \<noteq> None \<and> contextState h \<noteq> Closed
            then andThen (hostcall h ContextClose s4) (\<lambda>s. (Normal, log ''Closed AudioContext'' s))
            else (Normal, s4))
           (\<lambda>s. (Normal,
                  s\<lparr>audioContext := None, analyser := None, audioSource := None,
                    dataArray := None, currentAudioElement := None,
                    isSourceConnected := False\<rparr>)))"

section \<open>The lifecycle controller\<close>

text \<open>
  One poll of \<^verbatim>\<open>observePlayState\<close>. The callback given to \<^verbatim>\<open>then\<close> is a microtask: it runs
  once the poll's own statements are done, before any other timer or frame; it runs only if
  the promise was fulfilled.
\<close>

definition checkAndInitialize :: "host \<Rightarrow> config \<Rightarrow> state \<Rightarrow> completion \<times> state" where
  "checkAndInitialize h cfg s =
     (let s1 = s\<lparr>checkCount := checkCount s + 1\<rparr>;
          keepAnimating = (\<lambda>s. if animationId s = None then animate h cfg s else (Normal, s))
      in if playing h \<and> \<not> hasTriedInitialization s1 then
           (case initializeAudioVisualizer h cfg
                   (log ''Initializing audio visualizer...'' (s1\<lparr>hasTriedInitialization := True\<rparr>)) of
              (settled, s2) \<Rightarrow>
                (case keepAnimating s2 of
                   (c, s3) \<Rightarrow>
                     (c, if settled = Normal
                         then (if audioContext s3 \<noteq> None \<and> analyser s3 \<noteq> None
                               then log ''Audio visualizer ready!'' s3
                               else s3\<lparr>hasTriedInitialization := False\<rparr>)
                         else s3)))
         else if \<not> playing h \<and> hasTriedInitialization s1 then
           keepAnimating (s1\<lparr>hasTriedInitialization := False\<rparr>)
         else keepAnimating s1)"

text \<open>The body of the start-up timer of \<^verbatim>\<open>initialize\<close>, up to the first poll.\<close>

definition initialize :: "host \<Rightarrow> config \<Rightarrow> state \<Rightarrow> completion \<times> state" where
  "initialize h cfg s =
     (let s1 = log ''Starting visualizer...'' (log ''Audio Visualizer plugin initializing...'' s);
          s2 = createVisualizerUI h cfg s1
      in andThen (animate h cfg s2)
           (\<lambda>s. checkAndInitialize h cfg (s\<lparr>hasTriedInitialization := False, checkCount := 0\<rparr>)))"

section \<open>Auxiliary notions for the statements\<close>

text \<open>
  Notions used to state and prove the properties: frame conditions, the geometry of the bars,
  the stages of the longer functions, console accounting, runs of events, and example inputs.
  Each stage definition comes with a lemma that the source function is their composition.
\<close>

text \<open>
  The fields of the state as tags. \<open>keeps F A s s'\<close>: the step from \<open>s\<close> to \<open>s'\<close> changed no
  field outside \<open>F\<close>, and the host calls it made, in addition to those recorded before, are
  all from \<open>A\<close>. \<open>frames F A m\<close>: every run of the command \<open>m\<close> is such a step.
\<close>

datatype field =
    F_audioContext | F_analyser | F_audioSource | F_dataArray | F_animationId
  | F_currentAudioElement | F_isSourceConnected | F_visualizerContainer | F_canvas
  | F_canvasContext | F_waveTime | F_hasTriedInitialization | F_checkCount | F_rafSeq
  | F_rafQueue | F_console

definition calls_within :: "api set \<Rightarrow> state \<Rightarrow> state \<Rightarrow> bool" where
  "calls_within A s s' \<longleftrightarrow> (\<exists>cs. apiCalls s' = apiCalls s @ cs \<and> set cs \<subseteq> A)"

definition keeps :: "field set \<Rightarrow> api set \<Rightarrow> state \<Rightarrow> state \<Rightarrow> bool" where
  "keeps F A s s' \<longleftrightarrow>
     (F_audioContext \<notin> F \<longrightarrow> audioContext s' = audioContext s) \<and>
     (F_analyser \<notin> F \<longrightarrow> analyser s' = analyser s) \<and>
     (F_audioSource \<notin> F \<longrightarrow> audioSource s' = audioSource s) \<and>
     (F_dataArray \<notin> F \<longrightarrow> dataArray s' = dataArray s) \<and>
     (F_animationId \<notin> F \<longrightarrow> animationId s' = animationId s) \<and>
     (F_currentAudioElement \<notin> F \<longrightarrow> currentAudioElement s' = currentAudioElement s) \<and>
     (F_isSourceConnected \<notin> F \<longrightarrow> isSourceConnected s' = isSourceConnected s) \<and>
     (F_visualizerContainer \<notin> F \<longrightarrow> visualizerContainer s' = visualizerContainer s) \<and>
     (F_canvas \<notin> F \<longrightarrow> canvas s' = canvas s) \<and>
     (F_canvasContext \<notin> F \<longrightarrow> canvasContext s' = canvasContext s) \<and>
     (F_waveTime \<notin> F \<longrightarrow> waveTime s' = waveTime s) \<and>
     (F_hasTriedInitialization \<notin> F \<longrightarrow> hasTriedInitialization s' = hasTriedInitialization s) \<and>
     (F_checkCount \<notin> F \<longrightarrow> checkCount s' = checkCount s) \<and>
     (F_rafSeq \<notin> F \<longrightarrow> rafSeq s' = rafSeq s) \<and>
     (F_rafQueue \<notin> F \<longrightarrow> rafQueue s' = rafQueue s) \<and>
     (F_console \<notin> F \<longrightarrow> console s' = console s) \<and>
     calls_within A s s'"

definition frames :: "field set \<Rightarrow> api set \<Rightarrow> (state \<Rightarrow> completion \<times> state) \<Rightarrow> bool" where
  "frames F A m \<longleftrightarrow> (\<forall>s. keeps F A s (snd (m s)))"

text \<open>
  The canvas calls of the drawing routines, and all host calls of a render frame.
\<close>

definition draw_apis :: "api set" where
  "draw_apis = {FillRect, BeginPath, RoundRect, Fill}"

definition render_apis :: "api set" where
  "render_apis = draw_apis \<union> {ClearRect, GetByteFrequencyData, RequestAnimationFrame}"

text \<open>
  \<open>appended ds s s'\<close>: the step painted exactly the calls \<open>ds\<close>, in this order.
  \<open>idleBarHeight\<close> is the height that the loop of \<^verbatim>\<open>drawScrollingWave\<close> computes for bar
  \<open>i\<close> at wave time \<open>t\<close>; \<open>idleBar\<close> and \<open>barsBar\<close> are the calls that the two loops issue
  for bar \<open>i\<close>.
\<close>

definition appended :: "draw_call list \<Rightarrow> state \<Rightarrow> state \<Rightarrow> bool" where
  "appended ds s s' \<longleftrightarrow>
     rel_option (\<lambda>c c'. painted c' = painted c @ ds) (canvasContext s) (canvasContext s')"

definition idleBarHeight :: "real \<Rightarrow> nat \<Rightarrow> real \<Rightarrow> nat \<Rightarrow> real" where
  "idleBarHeight maxHeight bc t i =
     maxHeight
       * ((sin (real i / real bc * pi * 2 + t) * (3 / 10)
           + sin (real i / real bc * pi * 4 + t * (13 / 10)) * (2 / 10)
           + sin (real i / real bc * pi * 6 + t * (7 / 10)) * (1 / 10) + 1) / 2)
       * (sin (real i / real bc * pi * 3 - t * 2) * (1 / 2) + 1 / 2) * (8 / 10) + 2"

definition idleBar :: "config \<Rightarrow> canvas_el \<Rightarrow> real \<Rightarrow> real \<Rightarrow> real \<Rightarrow> nat \<Rightarrow> draw_call" where
  "idleBar cfg cv bw mh t i =
     (let bh = idleBarHeight mh (barCount cfg) t i
      in if barRounding cfg
         then RoundRectCall (real i * bw) (Some ((canvas_height cv - bh) / 2)) (bw - 1) (Some bh) 2
         else FillRectCall (real i * bw) (Some ((canvas_height cv - bh) / 2)) (bw - 1) (Some bh))"

definition barsBar :: "config \<Rightarrow> canvas_el \<Rightarrow> 8 word list \<Rightarrow> real \<Rightarrow> real \<Rightarrow> nat \<Rightarrow> draw_call" where
  "barsBar cfg cv arr bw hs i =
     (let bh = map_option (\<lambda>v. v * sensitivity cfg * hs)
                 (readByte arr (nat \<lfloor>real i * (real (length arr) / real (barCount cfg))\<rfloor>));
          y = map_option (\<lambda>bh. canvas_height cv - bh) bh
      in if barRounding cfg then RoundRectCall (real i * bw) y (bw - 1) bh 2
         else FillRectCall (real i * bw) y (bw - 1) bh)"

text \<open>
  The snapshot that a frame reads from the analyser, and whether the frame takes it for real
  audio.
\<close>

definition sampledArray :: "host \<Rightarrow> state \<Rightarrow> 8 word list option" where
  "sampledArray h s =
     (case (analyser s, dataArray s) of
        (Some an, Some arr) \<Rightarrow> Some (getByteFrequencyData h arr)
      | _ \<Rightarrow> dataArray s)"

definition frameAudio :: "host \<Rightarrow> state \<Rightarrow> bool" where
  "frameAudio h s = hasRealAudio (s\<lparr>dataArray := sampledArray h s\<rparr>)"

text \<open>
  What a frame may change, and the phases of \<^verbatim>\<open>animate\<close> once the styles are set: sampling,
  then (after the surface is cleared) drawing.
\<close>

definition frame_fields :: "field set" where
  "frame_fields = {F_canvasContext, F_waveTime, F_dataArray, F_animationId, F_rafSeq, F_rafQueue}"

definition sampleFrame :: "host \<Rightarrow> state \<Rightarrow> completion \<times> state" where
  "sampleFrame h s1 =
     (case (analyser s1, dataArray s1) of
        (Some an, Some arr) \<Rightarrow>
          andThen (hostcall h GetByteFrequencyData s1)
            (\<lambda>s. (Normal, s\<lparr>dataArray := Some (getByteFrequencyData h arr)\<rparr>))
      | _ \<Rightarrow> (Normal, s1))"

definition drawFrame :: "host \<Rightarrow> config \<Rightarrow> bool \<Rightarrow> state \<Rightarrow> completion \<times> state" where
  "drawFrame h cfg audio s3 =
     (if audio \<and> analyser s3 \<noteq> None \<and> dataArray s3 \<noteq> None then
        (case visualizerType cfg of
           Bars \<Rightarrow> drawBars h cfg s3
         | Waveform \<Rightarrow> drawWaveform s3
         | Circular \<Rightarrow> drawCircular s3)
      else drawScrollingWave h cfg s3)"

text \<open>
  A host on which no call from \<open>A\<close> throws.
\<close>

definition quiet :: "api set \<Rightarrow> host \<Rightarrow> bool" where
  "quiet A h \<longleftrightarrow> (\<forall>a\<in>A. faults h a = None)"

text \<open>
  Example inputs: a page where nothing throws and nothing plays, two settings, the state once
  the surface has been created, and that state with an analyser attached and a full-scale
  snapshot.
\<close>

definition quiet_host :: host where
  "quiet_host =
     \<lparr> faults = (\<lambda>a. None), querySelector = (\<lambda>selector. None), querySelectorAll = [],
       searchField = True, searchContainer = True, getContext2d = True,
       contextState = Running, frequencyData = replicate 256 0, playing = False \<rparr>"

definition square_settings :: settings where
  "square_settings =
     \<lparr> settings_barCount = 50, settings_barColor = ''#ffffff'', settings_barRounding = False \<rparr>"

definition rounded_settings :: settings where
  "rounded_settings =
     \<lparr> settings_barCount = 50, settings_barColor = ''#00ffaa'', settings_barRounding = True \<rparr>"

definition shown :: state where
  "shown = createVisualizerUI quiet_host (config square_settings) initial_state"

definition loud :: state where
  "loud = shown\<lparr>analyser := Some \<lparr>fftSize = 512, smoothingTimeConstant = 4 / 5\<rparr>,
                dataArray := Some (replicate 256 255)\<rparr>"


text \<open>
  \<open>n\<close> consecutive frames, as long as none throws.
\<close>

fun animateTimes :: "nat \<Rightarrow> host \<Rightarrow> config \<Rightarrow> state \<Rightarrow> completion \<times> state" where
  "animateTimes 0 h cfg s = (Normal, s)"
| "animateTimes (Suc n) h cfg s = andThen (animate h cfg s) (animateTimes n h cfg)"

text \<open>
  The host calls that create or connect a source, and those that tear a connection down;
  what a completed acquisition (with its first frame) may change and call.
\<close>

definition connect_apis :: "api set" where
  "connect_apis = {CreateMediaElementSource, SourceConnect, AnalyserConnect Direct,
                   AnalyserConnect Fallback, CaptureStream, MozCaptureStream,
                   CreateMediaStreamSource, StreamSourceConnect}"

definition teardown_apis :: "api set" where
  "teardown_apis = {SourceDisconnect, ContextClose}"

definition show_fields :: "field set" where
  "show_fields = frame_fields \<union> {F_visualizerContainer, F_canvas, F_console}"

definition show_apis :: "api set" where
  "show_apis = render_apis \<union> {Resume}"

text \<open>
  Console lines that the statements refer to. A line is quiet when it is neither the line
  of an acquisition attempt nor one of the two lines of a connection made.
\<close>

definition attempt_line :: "level \<times> string" where
  "attempt_line = (Info, ''[Audio Visualizer] Initializing audio visualizer...'')"

definition connected_direct :: "level \<times> string" where
  "connected_direct = (Info, ''[Audio Visualizer] Connected via MediaElementSource'')"

definition connected_stream :: "level \<times> string" where
  "connected_stream = (Info, ''[Audio Visualizer] Connected via captureStream'')"

definition fallback_line :: "level \<times> string" where
  "fallback_line =
     (Info, ''[Audio Visualizer] MediaElementSource failed, attempting captureStream fallback...'')"

definition quiet_line :: "level \<times> string \<Rightarrow> bool" where
  "quiet_line l \<longleftrightarrow> l \<noteq> attempt_line \<and> l \<noteq> connected_direct \<and> l \<noteq> connected_stream"

definition logs_quietly :: "state \<Rightarrow> state \<Rightarrow> bool" where
  "logs_quietly s s' \<longleftrightarrow> (\<exists>ls. console s' = console s @ ls \<and> (\<forall>l\<in>set ls. quiet_line l))"

text \<open>
  The outcome of the two connection attempts, read off the host: the direct tap throws when
  one of its three calls does; the fallback succeeds when a stream is obtained and its three
  calls go through. \<open>streamOf\<close> is the stream that
  \<^verbatim>\<open>captureStream?.() || mozCaptureStream?.()\<close> yields, if any.
\<close>

definition directTapThrows :: "host \<Rightarrow> bool" where
  "directTapThrows h \<longleftrightarrow>
     faults h CreateMediaElementSource \<noteq> None \<or> faults h SourceConnect \<noteq> None \<or>
     faults h (AnalyserConnect Direct) \<noteq> None"

definition streamOf :: "host \<Rightarrow> element \<Rightarrow> nat option" where
  "streamOf h el =
     (case captureStream el of
        Returns (Some st) \<Rightarrow> (if faults h CaptureStream = None then Some st else None)
      | Returns None \<Rightarrow>
          (if faults h CaptureStream = None
           then (case mozCaptureStream el of
                   Returns r \<Rightarrow> (if faults h MozCaptureStream = None then r else None)
                 | Unsupported \<Rightarrow> None)
           else None)
      | Unsupported \<Rightarrow>
          (case mozCaptureStream el of
             Returns r \<Rightarrow> (if faults h MozCaptureStream = None then r else None)
           | Unsupported \<Rightarrow> None))"

definition fallbackSucceeds :: "host \<Rightarrow> element \<Rightarrow> bool" where
  "fallbackSucceeds h el \<longleftrightarrow>
     streamOf h el \<noteq> None \<and> faults h CreateMediaStreamSource = None \<and>
     faults h StreamSourceConnect = None \<and> faults h (AnalyserConnect Fallback) = None"

text \<open>
  The stages of the \<^verbatim>\<open>try\<close> block of \<^verbatim>\<open>initializeAudioVisualizer\<close>: the audio context, the
  analyser, and the connection attempt with what follows it.
\<close>

definition ensureContext :: "host \<Rightarrow> state \<Rightarrow> completion \<times> state" where
  "ensureContext h s =
     (if audioContext s = None
      then andThen (hostcall h NewAudioContext s)
             (\<lambda>s. (Normal, log ''Created AudioContext'' (s\<lparr>audioContext := Some ()\<rparr>)))
      else (Normal, s))"

definition ensureAnalyser :: "host \<Rightarrow> config \<Rightarrow> state \<Rightarrow> completion \<times> state" where
  "ensureAnalyser h cfg s =
     (if analyser s = None
      then andThen (hostcall h CreateAnalyser s)
             (\<lambda>s. (Normal,
                log ''Created AnalyserNode''
                  (s\<lparr>analyser := Some \<lparr>fftSize = 512, smoothingTimeConstant = smoothing cfg\<rparr>,
                     dataArray := Some (replicate (512 div 2) 0)\<rparr>)))
      else (Normal, s))"

definition connectStage :: "host \<Rightarrow> config \<Rightarrow> element \<Rightarrow> state \<Rightarrow> completion \<times> state" where
  "connectStage h cfg audioElement s =
     (if \<not> isSourceConnected s \<and> differs audioElement (currentAudioElement s) then
        (case tapDirect h audioElement s of
           (Normal, s1) \<Rightarrow>
             resumeAndShow h cfg
               (s1\<lparr>currentAudioElement := Some audioElement, isSourceConnected := True\<rparr>)
         | (Throw err, s1) \<Rightarrow>
             (case tapStream h audioElement
                     (log ''MediaElementSource failed, attempting captureStream fallback...'' s1) of
                (Normal, s2) \<Rightarrow>
                  resumeAndShow h cfg
                    (s2\<lparr>currentAudioElement := Some audioElement, isSourceConnected := True\<rparr>)
              | (Throw streamErr, s2) \<Rightarrow>
                  (Normal,
                   console_error streamErr
                     (error ''Failed to hook audio for visualization on this platform'' s2))))
      else resumeAndShow h cfg s)"

text \<open>
  The state once context and analyser exist.
\<close>

definition prepared :: "state \<Rightarrow> state \<Rightarrow> bool" where
  "prepared s sB \<longleftrightarrow>
     keeps {F_audioContext, F_analyser, F_dataArray, F_console} {NewAudioContext, CreateAnalyser} s sB \<and>
     logs_quietly s sB \<and> audioContext sB \<noteq> None \<and> analyser sB \<noteq> None"

text \<open>
  Counting in a piece of console output the connections made and the acquisition attempts.
  \<open>conn_logged s s'\<close>: the step logged no attempt, and it logged one connection line exactly
  if it connected.
\<close>

definition is_connected_line :: "level \<times> string \<Rightarrow> bool" where
  "is_connected_line l \<longleftrightarrow> l = connected_direct \<or> l = connected_stream"

definition connections :: "(level \<times> string) list \<Rightarrow> nat" where
  "connections ls = length (filter is_connected_line ls)"

definition attempts :: "(level \<times> string) list \<Rightarrow> nat" where
  "attempts ls = length (filter (\<lambda>l. l = attempt_line) ls)"

definition conn_logged :: "state \<Rightarrow> state \<Rightarrow> bool" where
  "conn_logged s s' \<longleftrightarrow>
     (\<exists>ls. console s' = console s @ ls \<and> attempts ls = 0 \<and>
        (if isSourceConnected s then 1 else 0) + connections ls
          = (if isSourceConnected s' then 1 else (0::nat)))"

text \<open>
  Example inputs: a playing audio element that can capture a stream, a page where tapping
  the element directly is refused, and the same page with an element that cannot capture.
\<close>

definition player :: element where
  "player = \<lparr> eid = 1, tagName = ''AUDIO'', src = ''blob:track'', currentSrc = ''blob:track'',
               captureStream = Returns (Some 7), mozCaptureStream = Unsupported \<rparr>"

definition protected_host :: host where
  "protected_host =
     quiet_host\<lparr>faults := (\<lambda>a. if a = CreateMediaElementSource
                                  then Some (DOMException ''InvalidStateError'') else None),
                querySelector := (\<lambda>selector. if selector = ''audio'' then Some player else None),
                querySelectorAll := [player], playing := True\<rparr>"

definition no_capture_host :: host where
  "no_capture_host =
     protected_host\<lparr>querySelector :=
                       (\<lambda>selector. if selector = ''audio''
                                    then Some (player\<lparr>captureStream := Unsupported\<rparr>) else None)\<rparr>"

text \<open>
  \<open>logged k s s'\<close>: the step logged \<open>k\<close> acquisition attempts, and one connection line exactly
  if it connected.
\<close>

definition logged :: "nat \<Rightarrow> state \<Rightarrow> state \<Rightarrow> bool" where
  "logged k s s' \<longleftrightarrow>
     (\<exists>ls. console s' = console s @ ls \<and> attempts ls = k \<and>
        (if isSourceConnected s then 1 else 0) + connections ls
          = (if isSourceConnected s' then 1 else (0::nat)))"

text \<open>
  The last statement of a poll: start the render loop unless a frame is pending.
\<close>

definition keepAnimating :: "host \<Rightarrow> config \<Rightarrow> state \<Rightarrow> completion \<times> state" where
  "keepAnimating h cfg s = (if animationId s = None then animate h cfg s else (Normal, s))"

text \<open>
  A sequence of polls, each with the host as it is at that moment; an exception that escapes
  a poll is reported by the host and the timer goes on. \<open>risingEdges\<close> counts the transitions
  from not-playing to playing in a sequence of observations.
\<close>

fun polls :: "host list \<Rightarrow> config \<Rightarrow> state \<Rightarrow> state" where
  "polls [] cfg s = s"
| "polls (h # hs) cfg s = polls hs cfg (snd (checkAndInitialize h cfg s))"

fun risingEdges :: "bool \<Rightarrow> bool list \<Rightarrow> nat" where
  "risingEdges prev [] = 0"
| "risingEdges prev (p # ps) = (if p \<and> \<not> prev then 1 else 0) + risingEdges p ps"

text \<open>
  A page that plays but has no media element to be found.
\<close>

definition searching_host :: host where
  "searching_host = quiet_host\<lparr>playing := True\<rparr>"

text \<open>
  What can happen short of the shutdown: a poll, an animation frame, a change of settings,
  the clean-up that is not the shutdown. \<open>keeps_connection s s'\<close>: the step left the connection
  marks as they were and made no call that creates, connects, disconnects or closes.
\<close>

datatype event = Poll | Frame | SettingsChanged | Cleanup

fun step :: "host \<Rightarrow> config \<Rightarrow> event \<Rightarrow> state \<Rightarrow> state" where
  "step h cfg Poll s = snd (checkAndInitialize h cfg s)"
| "step h cfg Frame s = snd (animate h cfg s)"
| "step h cfg SettingsChanged s = updateAudioVisualizer h cfg s"
| "step h cfg Cleanup s = cleanupAudioVisualizer s"

fun run :: "(host \<times> config \<times> event) list \<Rightarrow> state \<Rightarrow> state" where
  "run [] s = s"
| "run ((h, cfg, ev) # evs) s = run evs (step h cfg ev s)"

definition safe_fields :: "field set" where
  "safe_fields = - {F_isSourceConnected, F_audioSource, F_currentAudioElement}"

definition safe_apis :: "api set" where
  "safe_apis = - (connect_apis \<union> teardown_apis)"

definition keeps_connection :: "state \<Rightarrow> state \<Rightarrow> bool" where
  "keeps_connection s s' \<longleftrightarrow>
     isSourceConnected s' \<and> audioSource s' = audioSource s \<and>
     currentAudioElement s' = currentAudioElement s \<and>
     (\<exists>cs. apiCalls s' = apiCalls s @ cs \<and> (\<forall>a\<in>set cs. a \<notin> connect_apis \<and> a \<notin> teardown_apis))"

text \<open>
  The state after a first successful acquisition through the fallback.
\<close>

definition connected_state :: state where
  "connected_state =
     snd (initializeAudioVisualizer protected_host (config square_settings) initial_state)"

section \<open>The silence classifier\<close>

lemma foldl_volume:
  "foldl (\<lambda>sum val. sum + unat val) a arr = a + sum_list (map unat arr)"
  by (induction arr arbitrary: a) simp_all

lemma avgVolume_mean:
  "avgVolume arr = (\<Sum>x\<leftarrow>arr. real (unat x)) / real (length arr)"
proof -
  have "real (sum_list (map unat arr)) = (\<Sum>x\<leftarrow>arr. real (unat x))"
    by (induction arr) simp_all
  then show ?thesis by (simp add: avgVolume_def foldl_volume)
qed

text \<open>
  Claim C4. The silence classifier takes the arithmetic mean of all bin magnitudes of the
  snapshot and classifies the snapshot as silent exactly when the mean is at most 5: a snapshot
  of zeros is silent, a snapshot of mean 200 is not.
\<close>

theorem silence_classifier:
  "avgVolume arr = (\<Sum>x\<leftarrow>arr. real (unat x)) / real (length arr)
   \<and> (analyser s = Some an \<and> dataArray s = Some arr \<longrightarrow>
        (\<not> hasRealAudio s \<longleftrightarrow> avgVolume arr \<le> 5))
   \<and> (dataArray s = Some arr \<and> (\<forall>x\<in>set arr. x = 0) \<longrightarrow> \<not> hasRealAudio s)
   \<and> (analyser s = Some an \<and> dataArray s = Some arr \<and> avgVolume arr = 200 \<longrightarrow>
        hasRealAudio s)"
proof (intro conjI impI)
  show "avgVolume arr = (\<Sum>x\<leftarrow>arr. real (unat x)) / real (length arr)"
    by (rule avgVolume_mean)
next
  assume "analyser s = Some an \<and> dataArray s = Some arr"
  then show "(\<not> hasRealAudio s) = (avgVolume arr \<le> 5)"
    by (auto simp: hasRealAudio_def)
next
  assume a: "dataArray s = Some arr \<and> (\<forall>x\<in>set arr. x = 0)"
  then have "\<forall>x\<in>set arr. x = 0" by simp
  then have "(\<Sum>x\<leftarrow>arr. real (unat x)) = 0"
    by (induction arr) simp_all
  then have "avgVolume arr = 0" by (simp add: avgVolume_mean)
  with a show "\<not> hasRealAudio s"
    by (auto simp: hasRealAudio_def split: option.splits)
next
  assume "analyser s = Some an \<and> dataArray s = Some arr \<and> avgVolume arr = 200"
  then show "hasRealAudio s" by (simp add: hasRealAudio_def)
qed

theorem silence_classifier_witness:
  "\<not> hasRealAudio (initial_state\<lparr>analyser := Some \<lparr>fftSize = 512, smoothingTimeConstant = 4 / 5\<rparr>,
                                   dataArray := Some (replicate 256 0)\<rparr>)
   \<and> avgVolume (replicate 256 200) = 200
   \<and> hasRealAudio (initial_state\<lparr>analyser := Some \<lparr>fftSize = 512, smoothingTimeConstant = 4 / 5\<rparr>,
                                   dataArray := Some (replicate 256 200)\<rparr>)"
proof -
  let ?an = "\<lparr>fftSize = 512, smoothingTimeConstant = 4 / 5\<rparr>"
  let ?s0 = "initial_state\<lparr>analyser := Some ?an, dataArray := Some (replicate 256 0)\<rparr>"
  let ?s1 = "initial_state\<lparr>analyser := Some ?an, dataArray := Some (replicate 256 200)\<rparr>"
  have z: "dataArray ?s0 = Some (replicate 256 0) \<and> (\<forall>x\<in>set (replicate 256 (0::8 word)). x = 0)"
    by simp
  have m: "avgVolume (replicate 256 200) = 200"
    using silence_classifier[of "replicate 256 200" ?s1 ?an]
    by (simp add: sum_list_replicate)
  have p: "analyser ?s1 = Some ?an \<and> dataArray ?s1 = Some (replicate 256 200)
             \<and> avgVolume (replicate 256 200) = 200"
    using m by simp
  from silence_classifier[of "replicate 256 0" ?s0 ?an] z
       silence_classifier[of "replicate 256 200" ?s1 ?an] p m
  show ?thesis by blast
qed

section \<open>Frame conditions\<close>

lemma calls_within_refl: "calls_within A s s"
  by (simp add: calls_within_def)

lemma calls_within_trans:
  "calls_within A s s1 \<Longrightarrow> calls_within A s1 s' \<Longrightarrow> calls_within A s s'"
  by (auto simp: calls_within_def)

lemma calls_within_mono: "A \<subseteq> B \<Longrightarrow> calls_within A s s' \<Longrightarrow> calls_within B s s'"
  by (auto simp: calls_within_def)

lemma keeps_refl: "keeps F A s s"
  by (simp add: keeps_def calls_within_refl)

lemma keeps_trans: "keeps F A s s1 \<Longrightarrow> keeps F A s1 s' \<Longrightarrow> keeps F A s s'"
  unfolding keeps_def
  by (intro conjI impI; (elim conjE)?; (erule (1) calls_within_trans | simp))

lemma keeps_mono:
  assumes "F \<subseteq> G" "A \<subseteq> B" "keeps F A s s'"
  shows "keeps G B s s'"
proof -
  have n: "\<And>x. x \<notin> G \<Longrightarrow> x \<notin> F" using assms(1) by blast
  have c: "calls_within B s s'"
    using assms(3) calls_within_mono[OF assms(2)] by (simp add: keeps_def)
  show ?thesis
    using assms(3) c unfolding keeps_def
    by (intro conjI impI; (elim conjE)?; simp add: n)
qed

lemma framesD: "frames F A m \<Longrightarrow> m s = (r, s') \<Longrightarrow> keeps F A s s'"
  by (auto simp: frames_def dest: spec[where x=s])

lemma frames_pure: "(\<And>s. keeps F A s (g s)) \<Longrightarrow> frames F A (\<lambda>s. (c, g s))"
  by (simp add: frames_def)

lemma frames_andThen:
  assumes "frames F A m" "frames F A f"
  shows "frames F A (\<lambda>s. andThen (m s) f)"
  unfolding frames_def
proof
  fix s
  obtain r s1 where m: "m s = (r, s1)" by (metis surj_pair)
  have k1: "keeps F A s s1" by (rule framesD[OF assms(1) m])
  show "keeps F A s (snd (andThen (m s) f))"
  proof (cases r)
    case Normal
    obtain c s2 where f: "f s1 = (c, s2)" by (metis surj_pair)
    from keeps_trans[OF k1 framesD[OF assms(2) f]] m Normal f
    show ?thesis by (simp add: andThen_def)
  next
    case (Throw e)
    with m k1 show ?thesis by (simp add: andThen_def)
  qed
qed

lemma keeps_called: "a \<in> A \<Longrightarrow> keeps F A s (called a s)"
  by (simp add: keeps_def called_def calls_within_def)

lemma frames_hostcall: "a \<in> A \<Longrightarrow> frames F A (hostcall h a)"
  by (auto simp: frames_def hostcall_def keeps_called split: option.splits)

lemma keeps_ctx_update: "F_canvasContext \<in> F \<Longrightarrow> keeps F A s (ctx_update f s)"
  by (simp add: keeps_def ctx_update_def calls_within_def)

section \<open>Properties of the drawing routines\<close>

lemma hostcall_eq: "hostcall h a s = (r, s') \<Longrightarrow> s' = called a s"
  by (auto simp: hostcall_def split: option.splits)

lemma andThen_Normal:
  "andThen r f = (Normal, s') \<longleftrightarrow> (\<exists>s1. r = (Normal, s1) \<and> f s1 = (Normal, s'))"
  by (cases r; cases "fst r") (auto simp: andThen_def)

lemma andThen_cases:
  "andThen r f = (c, s') \<Longrightarrow>
     (\<exists>e. r = (Throw e, s') \<and> c = Throw e) \<or> (\<exists>s1. r = (Normal, s1) \<and> f s1 = (c, s'))"
  by (cases r; cases "fst r") (auto simp: andThen_def)

lemma frames_fillRect: "frames {F_canvasContext} draw_apis (fillRect h x y w ht)"
  unfolding fillRect_def
  by (intro frames_andThen frames_hostcall frames_pure keeps_ctx_update) (simp_all add: draw_apis_def)

lemma fillRect_outside:
  "fillRect h x y w ht s = (r, s') \<Longrightarrow> keeps {F_canvasContext} draw_apis s s'"
  by (rule framesD[OF frames_fillRect])

lemma drawRoundedRect_outside:
  assumes "drawRoundedRect h x y w ht r s = (c, s')"
  shows "keeps {F_canvasContext} draw_apis s s'"
proof -
  have a: "\<And>a s. a \<in> draw_apis \<Longrightarrow> keeps {F_canvasContext} draw_apis s (called a s)"
    by (rule keeps_called)
  have u: "\<And>f s. keeps {F_canvasContext} draw_apis s (ctx_update f s)"
    by (rule keeps_ctx_update) simp
  have m: "BeginPath \<in> draw_apis" "RoundRect \<in> draw_apis" "Fill \<in> draw_apis"
    by (simp_all add: draw_apis_def)
  from assms show ?thesis
    unfolding drawRoundedRect_def
    by (auto dest!: andThen_cases hostcall_eq
          intro: a[OF m(1)] keeps_trans[OF a[OF m(1)] keeps_trans[OF u a[OF m(2)]]]
                 keeps_trans[OF a[OF m(1)] keeps_trans[OF u keeps_trans[OF a[OF m(2)]
                   keeps_trans[OF u a[OF m(3)]]]]]
                 keeps_trans[OF a[OF m(1)] keeps_trans[OF u keeps_trans[OF a[OF m(2)]
                   keeps_trans[OF u keeps_trans[OF a[OF m(3)] u]]]]])
qed

lemma waveTime_outside: "keeps {F_canvasContext} draw_apis s s' \<Longrightarrow> waveTime s' = waveTime s"
  by (simp add: keeps_def)

lemma appended_refl: "appended [] s s"
  by (cases "canvasContext s") (simp_all add: appended_def)

lemma appended_trans: "appended ds s s1 \<Longrightarrow> appended es s1 s' \<Longrightarrow> appended (ds @ es) s s'"
  by (cases "canvasContext s"; cases "canvasContext s1"; cases "canvasContext s'")
     (simp_all add: appended_def)

lemma painted_called [simp]: "canvasContext (called a s) = canvasContext s"
  by (simp add: called_def)

lemma fillRect_Normal:
  "fillRect h x y w ht s = (Normal, s') \<Longrightarrow> appended [FillRectCall x y w ht] s s'"
  unfolding fillRect_def
  by (cases "canvasContext s")
     (auto dest!: andThen_cases hostcall_eq simp: ctx_update_def appended_def)

lemma drawRoundedRect_Normal:
  "drawRoundedRect h x y w ht r s = (Normal, s') \<Longrightarrow> appended [RoundRectCall x y w ht r] s s'"
  unfolding drawRoundedRect_def
  by (cases "canvasContext s")
     (auto dest!: andThen_cases hostcall_eq simp: ctx_update_def appended_def)

lemma wave_loop_step:
  assumes "i < barCount cfg"
  shows "drawScrollingWave_loop h cfg cv bw mh i s =
     (case (if barRounding cfg
            then drawRoundedRect h (real i * bw) (Some ((canvas_height cv - idleBarHeight mh (barCount cfg) (waveTime s) i) / 2))
                   (bw - 1) (Some (idleBarHeight mh (barCount cfg) (waveTime s) i)) 2 s
            else fillRect h (real i * bw) (Some ((canvas_height cv - idleBarHeight mh (barCount cfg) (waveTime s) i) / 2))
                   (bw - 1) (Some (idleBarHeight mh (barCount cfg) (waveTime s) i)) s) of
        (Normal, s') \<Rightarrow> drawScrollingWave_loop h cfg cv bw mh (Suc i) s'
      | (Throw e, s') \<Rightarrow> (Throw e, s'))"
  using assms
  by (subst drawScrollingWave_loop.simps) (simp add: Let_def idleBarHeight_def)

lemma wave_loop_done: "\<not> i < barCount cfg \<Longrightarrow> drawScrollingWave_loop h cfg cv bw mh i s = (Normal, s)"
  by (subst drawScrollingWave_loop.simps) simp

lemma wave_bar_step:
  assumes "(if barRounding cfg
            then drawRoundedRect h x y w ht 2 s
            else fillRect h x y w ht s) = (r, s1)"
  shows "keeps {F_canvasContext} draw_apis s s1"
    and "r = Normal \<Longrightarrow> appended [if barRounding cfg then RoundRectCall x y w ht 2
                                          else FillRectCall x y w ht] s s1"
  using assms
  by (auto split: if_splits dest: drawRoundedRect_outside fillRect_outside
        drawRoundedRect_Normal fillRect_Normal)

lemma wave_loop_outside:
  "drawScrollingWave_loop h cfg cv bw mh i s = (r, s') \<Longrightarrow> keeps {F_canvasContext} draw_apis s s'"
proof (induction "barCount cfg - i" arbitrary: i s)
  case 0
  then show ?case by (auto simp: wave_loop_done keeps_refl)
next
  case (Suc k)
  then have lt: "i < barCount cfg" and k: "k = barCount cfg - Suc i" by auto
  let ?bh = "idleBarHeight mh (barCount cfg) (waveTime s) i"
  obtain r1 s1 where st: "(if barRounding cfg
            then drawRoundedRect h (real i * bw) (Some ((canvas_height cv - ?bh) / 2)) (bw - 1) (Some ?bh) 2 s
            else fillRect h (real i * bw) (Some ((canvas_height cv - ?bh) / 2)) (bw - 1) (Some ?bh) s) = (r1, s1)"
    by (metis surj_pair)
  have o1: "keeps {F_canvasContext} draw_apis s s1" by (rule wave_bar_step(1)[OF st])
  show ?case
  proof (cases r1)
    case Normal
    with Suc.prems st have "drawScrollingWave_loop h cfg cv bw mh (Suc i) s1 = (r, s')"
      by (simp add: wave_loop_step[OF lt])
    from Suc.hyps(1)[OF k this] o1 show ?thesis by (rule keeps_trans[rotated])
  next
    case (Throw e)
    with Suc.prems st have "s' = s1" by (simp add: wave_loop_step[OF lt])
    with o1 show ?thesis by simp
  qed
qed

lemma wave_loop_painted:
  "drawScrollingWave_loop h cfg cv bw mh i s = (Normal, s') \<Longrightarrow>
     appended (map (idleBar cfg cv bw mh (waveTime s)) [i..<barCount cfg]) s s'"
proof (induction "barCount cfg - i" arbitrary: i s)
  case 0
  then show ?case by (simp add: wave_loop_done appended_refl)
next
  case (Suc k)
  then have lt: "i < barCount cfg" and k: "k = barCount cfg - Suc i" by auto
  let ?bh = "idleBarHeight mh (barCount cfg) (waveTime s) i"
  obtain r1 s1 where st: "(if barRounding cfg
            then drawRoundedRect h (real i * bw) (Some ((canvas_height cv - ?bh) / 2)) (bw - 1) (Some ?bh) 2 s
            else fillRect h (real i * bw) (Some ((canvas_height cv - ?bh) / 2)) (bw - 1) (Some ?bh) s) = (r1, s1)"
    by (metis surj_pair)
  have wt: "waveTime s1 = waveTime s"
    by (rule waveTime_outside[OF wave_bar_step(1)[OF st]])
  show ?case
  proof (cases r1)
    case Normal
    with Suc.prems st have "drawScrollingWave_loop h cfg cv bw mh (Suc i) s1 = (Normal, s')"
      by (simp add: wave_loop_step[OF lt])
    from Suc.hyps(1)[OF k this] have "appended (map (idleBar cfg cv bw mh (waveTime s)) [Suc i..<barCount cfg]) s1 s'"
      by (simp add: wt)
    from appended_trans[OF wave_bar_step(2)[OF st Normal] this]
    show ?thesis
      by (simp add: upt_conv_Cons[OF lt] idleBar_def Let_def)
  next
    case (Throw e)
    with Suc.prems st show ?thesis by (simp add: wave_loop_step[OF lt])
  qed
qed

lemma bars_loop_step:
  assumes "i < barCount cfg"
  shows "drawBars_loop h cfg cv arr bw hs i s =
     (case (if barRounding cfg
            then drawRoundedRect h (real i * bw) (dc_y (barsBar cfg cv arr bw hs i)) (bw - 1)
                   (dc_h (barsBar cfg cv arr bw hs i)) 2 s
            else fillRect h (real i * bw) (dc_y (barsBar cfg cv arr bw hs i)) (bw - 1)
                   (dc_h (barsBar cfg cv arr bw hs i)) s) of
        (Normal, s') \<Rightarrow> drawBars_loop h cfg cv arr bw hs (Suc i) s'
      | (Throw e, s') \<Rightarrow> (Throw e, s'))"
  using assms
  by (subst drawBars_loop.simps) (simp add: Let_def barsBar_def)

lemma bars_loop_done: "\<not> i < barCount cfg \<Longrightarrow> drawBars_loop h cfg cv arr bw hs i s = (Normal, s)"
  by (subst drawBars_loop.simps) simp

lemma barsBar_if:
  "(if barRounding cfg
    then RoundRectCall (real i * bw) (dc_y (barsBar cfg cv arr bw hs i)) (bw - 1)
           (dc_h (barsBar cfg cv arr bw hs i)) 2
    else FillRectCall (real i * bw) (dc_y (barsBar cfg cv arr bw hs i)) (bw - 1)
           (dc_h (barsBar cfg cv arr bw hs i))) = barsBar cfg cv arr bw hs i"
  by (simp add: barsBar_def Let_def)

lemma bars_loop_outside:
  "drawBars_loop h cfg cv arr bw hs i s = (r, s') \<Longrightarrow> keeps {F_canvasContext} draw_apis s s'"
proof (induction "barCount cfg - i" arbitrary: i s)
  case 0
  then show ?case by (auto simp: bars_loop_done keeps_refl)
next
  case (Suc k)
  then have lt: "i < barCount cfg" and k: "k = barCount cfg - Suc i" by auto
  let ?b = "barsBar cfg cv arr bw hs i"
  obtain r1 s1 where st: "(if barRounding cfg
            then drawRoundedRect h (real i * bw) (dc_y ?b) (bw - 1) (dc_h ?b) 2 s
            else fillRect h (real i * bw) (dc_y ?b) (bw - 1) (dc_h ?b) s) = (r1, s1)"
    by (metis surj_pair)
  have o1: "keeps {F_canvasContext} draw_apis s s1" by (rule wave_bar_step(1)[OF st])
  show ?case
  proof (cases r1)
    case Normal
    with Suc.prems st have "drawBars_loop h cfg cv arr bw hs (Suc i) s1 = (r, s')"
      by (simp add: bars_loop_step[OF lt])
    from Suc.hyps(1)[OF k this] o1 show ?thesis by (rule keeps_trans[rotated])
  next
    case (Throw e)
    with Suc.prems st have "s' = s1" by (simp add: bars_loop_step[OF lt])
    with o1 show ?thesis by simp
  qed
qed

lemma bars_loop_painted:
  "drawBars_loop h cfg cv arr bw hs i s = (Normal, s') \<Longrightarrow>
     appended (map (barsBar cfg cv arr bw hs) [i..<barCount cfg]) s s'"
proof (induction "barCount cfg - i" arbitrary: i s)
  case 0
  then show ?case by (simp add: bars_loop_done appended_refl)
next
  case (Suc k)
  then have lt: "i < barCount cfg" and k: "k = barCount cfg - Suc i" by auto
  let ?b = "barsBar cfg cv arr bw hs i"
  obtain r1 s1 where st: "(if barRounding cfg
            then drawRoundedRect h (real i * bw) (dc_y ?b) (bw - 1) (dc_h ?b) 2 s
            else fillRect h (real i * bw) (dc_y ?b) (bw - 1) (dc_h ?b) s) = (r1, s1)"
    by (metis surj_pair)
  show ?case
  proof (cases r1)
    case Normal
    with Suc.prems st have "drawBars_loop h cfg cv arr bw hs (Suc i) s1 = (Normal, s')"
      by (simp add: bars_loop_step[OF lt])
    from appended_trans[OF wave_bar_step(2)[OF st Normal] Suc.hyps(1)[OF k this]]
    show ?thesis
      by (simp add: upt_conv_Cons[OF lt] barsBar_if)
  next
    case (Throw e)
    with Suc.prems st show ?thesis by (simp add: bars_loop_step[OF lt])
  qed
qed

lemma appended_ctx_update:
  "(\<And>c. painted (f c) = painted c) \<Longrightarrow> appended ds (ctx_update f s) s' \<Longrightarrow> appended ds s s'"
  by (cases "canvasContext s"; cases "canvasContext s'") (simp_all add: appended_def ctx_update_def)

lemma drawScrollingWave_Normal:
  assumes "drawScrollingWave h cfg s = (Normal, s')" "canvasContext s = Some c" "canvas s = Some cv"
  shows "waveTime s' = waveTime s + 5 / 100"
    and "appended (map (idleBar cfg cv (canvas_width cv / real (barCount cfg))
                          (canvas_height cv * (6 / 10)) (waveTime s + 5 / 100)) [0..<barCount cfg]) s s'"
proof -
  let ?s2 = "ctx_update (\<lambda>c. c\<lparr>fillStyle := color cfg\<rparr>) (s\<lparr>waveTime := waveTime s + 5 / 100\<rparr>)"
  from assms have lp: "drawScrollingWave_loop h cfg cv (canvas_width cv / real (barCount cfg))
                     (canvas_height cv * (6 / 10)) 0 ?s2 = (Normal, s')"
    by (simp add: drawScrollingWave_def Let_def)
  have wt2: "waveTime ?s2 = waveTime s + 5 / 100" by (simp add: ctx_update_def)
  from waveTime_outside[OF wave_loop_outside[OF lp]] wt2
  show "waveTime s' = waveTime s + 5 / 100" by simp
  have "appended (map (idleBar cfg cv (canvas_width cv / real (barCount cfg))
                          (canvas_height cv * (6 / 10)) (waveTime s + 5 / 100)) [0..<barCount cfg])
          (s\<lparr>waveTime := waveTime s + 5 / 100\<rparr>) s'"
    using wave_loop_painted[OF lp] wt2
    by (auto intro: appended_ctx_update[where f="\<lambda>c. c\<lparr>fillStyle := color cfg\<rparr>"])
  then show "appended (map (idleBar cfg cv (canvas_width cv / real (barCount cfg))
                          (canvas_height cv * (6 / 10)) (waveTime s + 5 / 100)) [0..<barCount cfg]) s s'"
    by (simp add: appended_def)
qed

lemma drawBars_Normal:
  assumes "drawBars h cfg s = (Normal, s')" "canvasContext s = Some c" "canvas s = Some cv"
    "dataArray s = Some arr"
  shows "appended (map (barsBar cfg cv arr (canvas_width cv / real (barCount cfg))
                          (canvas_height cv / 255)) [0..<barCount cfg]) s s'"
proof -
  let ?s1 = "ctx_update (\<lambda>c. c\<lparr>fillStyle := color cfg\<rparr>) s"
  from assms have lp: "drawBars_loop h cfg cv arr (canvas_width cv / real (barCount cfg))
                     (canvas_height cv / 255) 0 ?s1 = (Normal, s')"
    by (simp add: drawBars_def Let_def)
  show ?thesis
    using bars_loop_painted[OF lp]
    by (auto intro: appended_ctx_update[where f="\<lambda>c. c\<lparr>fillStyle := color cfg\<rparr>"])
qed

lemma drawScrollingWave_outside:
  "drawScrollingWave h cfg s = (r, s') \<Longrightarrow> keeps {F_canvasContext, F_waveTime} draw_apis s s'"
proof (cases "canvasContext s"; cases "canvas s")
  fix c cv assume a: "drawScrollingWave h cfg s = (r, s')" "canvasContext s = Some c" "canvas s = Some cv"
  let ?s2 = "ctx_update (\<lambda>c. c\<lparr>fillStyle := color cfg\<rparr>) (s\<lparr>waveTime := waveTime s + 5 / 100\<rparr>)"
  from a have lp: "drawScrollingWave_loop h cfg cv (canvas_width cv / real (barCount cfg))
                     (canvas_height cv * (6 / 10)) 0 ?s2 = (r, s')"
    by (simp add: drawScrollingWave_def Let_def)
  have "keeps {F_canvasContext, F_waveTime} draw_apis s ?s2"
    by (simp add: keeps_def ctx_update_def calls_within_def)
  moreover have "keeps {F_canvasContext, F_waveTime} draw_apis ?s2 s'"
    by (rule keeps_mono[OF _ _ wave_loop_outside[OF lp]]) simp_all
  ultimately show ?thesis by (rule keeps_trans)
qed (auto simp: drawScrollingWave_def keeps_refl)

lemma drawBars_outside:
  "drawBars h cfg s = (r, s') \<Longrightarrow> keeps {F_canvasContext} draw_apis s s'"
proof (cases "canvasContext s"; cases "canvas s"; cases "dataArray s")
  fix c cv arr assume a: "drawBars h cfg s = (r, s')" "canvasContext s = Some c" "canvas s = Some cv"
     "dataArray s = Some arr"
  let ?s1 = "ctx_update (\<lambda>c. c\<lparr>fillStyle := color cfg\<rparr>) s"
  from a have lp: "drawBars_loop h cfg cv arr (canvas_width cv / real (barCount cfg))
                     (canvas_height cv / 255) 0 ?s1 = (r, s')"
    by (simp add: drawBars_def Let_def)
  have "keeps {F_canvasContext} draw_apis s ?s1"
    by (simp add: keeps_ctx_update)
  then show ?thesis using bars_loop_outside[OF lp] by (rule keeps_trans)
qed (auto simp: drawBars_def keeps_refl)

section \<open>Properties of a render frame\<close>

lemma animate_no_canvas:
  "canvasContext s = None \<or> canvas s = None \<Longrightarrow> animate h cfg s = (Normal, s\<lparr>animationId := None\<rparr>)"
  by (auto simp: animate_def split: option.splits)

lemma animate_unfold:
  assumes "canvasContext s = Some c" "canvas s = Some cv"
  shows "animate h cfg s =
     andThen (sampleFrame h (ctx_update (\<lambda>c. c\<lparr>fillStyle := color cfg, strokeStyle := color cfg\<rparr>) s))
       (\<lambda>s2. andThen (clearRect h s2)
          (\<lambda>s3. andThen (drawFrame h cfg (hasRealAudio s2) s3) (requestAnimationFrame h)))"
  using assms by (simp add: animate_def sampleFrame_def drawFrame_def Let_def)

lemma sampleFrame_keeps:
  "sampleFrame h s = (r, s') \<Longrightarrow> keeps {F_dataArray} {GetByteFrequencyData} s s'"
  by (auto simp: sampleFrame_def keeps_refl keeps_def called_def calls_within_def
        split: option.splits dest!: andThen_cases hostcall_eq)

lemma sampleFrame_Normal:
  "sampleFrame h s = (Normal, s') \<Longrightarrow> dataArray s' = sampledArray h s"
  by (auto simp: sampleFrame_def sampledArray_def split: option.splits
        dest!: andThen_cases hostcall_eq)

lemma clearRect_keeps: "clearRect h s = (r, s') \<Longrightarrow> keeps {F_canvasContext} {ClearRect} s s'"
  by (auto simp: clearRect_def keeps_def called_def ctx_update_def calls_within_def
        dest!: andThen_cases hostcall_eq)

lemma clearRect_Normal:
  "clearRect h s = (Normal, s') \<Longrightarrow> canvasContext s = Some c \<Longrightarrow>
     \<exists>c'. canvasContext s' = Some c' \<and> painted c' = []"
  by (auto simp: clearRect_def ctx_update_def dest!: andThen_cases hostcall_eq)

lemma drawFrame_keeps:
  "drawFrame h cfg b s = (r, s') \<Longrightarrow> keeps {F_canvasContext, F_waveTime} draw_apis s s'"
proof -
  assume a: "drawFrame h cfg b s = (r, s')"
  have k: "\<And>s s'. keeps {F_canvasContext} draw_apis s s' \<Longrightarrow>
             keeps {F_canvasContext, F_waveTime} draw_apis s s'"
    by (erule keeps_mono[rotated 2]) simp_all
  from a show ?thesis
    by (auto simp: drawFrame_def drawWaveform_def drawCircular_def keeps_refl
          split: if_splits visualizerType.splits
          dest: drawBars_outside[THEN k] drawScrollingWave_outside)
qed

lemma requestAnimationFrame_keeps:
  "requestAnimationFrame h s = (r, s') \<Longrightarrow>
     keeps {F_animationId, F_rafSeq, F_rafQueue} {RequestAnimationFrame} s s'"
  by (auto simp: requestAnimationFrame_def keeps_def called_def calls_within_def
        dest!: andThen_cases hostcall_eq)

lemma requestAnimationFrame_Normal:
  "requestAnimationFrame h s = (Normal, s') \<Longrightarrow>
     animationId s' = Some (Suc (rafSeq s)) \<and> rafQueue s' = rafQueue s @ [Suc (rafSeq s)]
     \<and> rafSeq s' = Suc (rafSeq s) \<and> canvasContext s' = canvasContext s
     \<and> waveTime s' = waveTime s \<and> dataArray s' = dataArray s"
  by (auto simp: requestAnimationFrame_def called_def dest!: andThen_cases hostcall_eq)

lemma requestAnimationFrame_Throw:
  "requestAnimationFrame h s = (Throw e, s') \<Longrightarrow>
     animationId s' = animationId s \<and> rafQueue s' = rafQueue s \<and> rafSeq s' = rafSeq s"
  by (auto simp: requestAnimationFrame_def called_def dest!: andThen_cases hostcall_eq)

lemma render_apis_mono:
  "draw_apis \<subseteq> render_apis" "{ClearRect} \<subseteq> render_apis"
  "{GetByteFrequencyData} \<subseteq> render_apis" "{RequestAnimationFrame} \<subseteq> render_apis"
  by (auto simp: render_apis_def)

lemma animate_steps:
  assumes "animate h cfg s = (r, s')" "canvasContext s = Some c" "canvas s = Some cv"
  obtains
    (sample) e where "r = Throw e"
      "keeps frame_fields render_apis s s'"
      "animationId s' = animationId s" "rafQueue s' = rafQueue s" "rafSeq s' = rafSeq s"
  | (scheduled) s2 s3 s4 where "r = Normal"
      "sampleFrame h (ctx_update (\<lambda>c. c\<lparr>fillStyle := color cfg, strokeStyle := color cfg\<rparr>) s) = (Normal, s2)"
      "clearRect h s2 = (Normal, s3)"
      "drawFrame h cfg (hasRealAudio s2) s3 = (Normal, s4)"
      "requestAnimationFrame h s4 = (Normal, s')"
proof -
  let ?F = frame_fields
  let ?s1 = "ctx_update (\<lambda>c. c\<lparr>fillStyle := color cfg, strokeStyle := color cfg\<rparr>) s"
  have up: "\<And>F A s s'. F \<subseteq> ?F \<Longrightarrow> A \<subseteq> render_apis \<Longrightarrow> keeps F A s s' \<Longrightarrow> keeps ?F render_apis s s'"
    by (rule keeps_mono)
  have k1: "keeps ?F render_apis s ?s1"
    by (rule keeps_ctx_update) (simp add: frame_fields_def)
  have id1: "animationId ?s1 = animationId s" "rafQueue ?s1 = rafQueue s" "rafSeq ?s1 = rafSeq s"
    by (simp_all add: ctx_update_def)
  obtain r2 s2 where sm: "sampleFrame h ?s1 = (r2, s2)" by (metis surj_pair)
  have k2: "keeps ?F render_apis s s2"
    by (rule keeps_trans[OF k1 up[OF _ render_apis_mono(3) sampleFrame_keeps[OF sm]]])
       (simp add: frame_fields_def)
  have id2: "animationId s2 = animationId s" "rafQueue s2 = rafQueue s" "rafSeq s2 = rafSeq s"
    using sampleFrame_keeps[OF sm] id1 by (simp_all add: keeps_def)
  show ?thesis
  proof (cases r2)
    case (Throw e)
    with assms sm have "r = Throw e" "s' = s2"
      by (simp_all add: animate_unfold[OF assms(2,3)] andThen_def)
    then show ?thesis using k2 id2 by (intro sample[of e]) simp_all
  next
    case Normal
    obtain r3 s3 where cl: "clearRect h s2 = (r3, s3)" by (metis surj_pair)
    have k3: "keeps ?F render_apis s s3"
      by (rule keeps_trans[OF k2 up[OF _ render_apis_mono(2) clearRect_keeps[OF cl]]])
         (simp add: frame_fields_def)
    have id3: "animationId s3 = animationId s" "rafQueue s3 = rafQueue s" "rafSeq s3 = rafSeq s"
      using clearRect_keeps[OF cl] id2 by (simp_all add: keeps_def)
    show ?thesis
    proof (cases r3)
      case (Throw e)
      with assms sm cl Normal have "r = Throw e" "s' = s3"
        by (simp_all add: animate_unfold[OF assms(2,3)] andThen_def)
      then show ?thesis using k3 id3 by (intro sample[of e]) simp_all
    next
      case N3: Normal
      obtain r4 s4 where dr: "drawFrame h cfg (hasRealAudio s2) s3 = (r4, s4)" by (metis surj_pair)
      have k4: "keeps ?F render_apis s s4"
        by (rule keeps_trans[OF k3 up[OF _ render_apis_mono(1) drawFrame_keeps[OF dr]]])
           (simp add: frame_fields_def)
      have id4: "animationId s4 = animationId s" "rafQueue s4 = rafQueue s" "rafSeq s4 = rafSeq s"
        using drawFrame_keeps[OF dr] id3 by (simp_all add: keeps_def)
      show ?thesis
      proof (cases r4)
        case (Throw e)
        with assms sm cl dr Normal N3 have "r = Throw e" "s' = s4"
          by (simp_all add: animate_unfold[OF assms(2,3)] andThen_def)
        then show ?thesis using k4 id4 by (intro sample[of e]) simp_all
      next
        case N4: Normal
        from assms sm cl dr Normal N3 N4 have rf: "requestAnimationFrame h s4 = (r, s')"
          by (simp add: animate_unfold[OF assms(2,3)] andThen_def)
        have k5: "keeps ?F render_apis s s'"
          by (rule keeps_trans[OF k4 up[OF _ render_apis_mono(4) requestAnimationFrame_keeps[OF rf]]])
             (simp add: frame_fields_def)
        show ?thesis
        proof (cases r)
          case (Throw e)
          from requestAnimationFrame_Throw[OF rf[unfolded Throw]] id4
          have "animationId s' = animationId s" "rafQueue s' = rafQueue s" "rafSeq s' = rafSeq s"
            by simp_all
          with Throw k5 show ?thesis by (intro sample[of e]) simp_all
        next
          case N: Normal
          show ?thesis
            using sm cl dr rf unfolding Normal N3 N4 N
            by (rule scheduled[OF N])
        qed
      qed
    qed
  qed
qed

lemma animate_keeps:
  assumes "animate h cfg s = (r, s')"
  shows "keeps frame_fields render_apis s s'"
proof (cases "canvasContext s = None \<or> canvas s = None")
  case True
  from assms animate_no_canvas[OF True, of h cfg] show ?thesis
    by (auto simp: keeps_def frame_fields_def calls_within_def)
next
  case False
  then obtain c cv where cc: "canvasContext s = Some c" "canvas s = Some cv" by auto
  let ?s1 = "ctx_update (\<lambda>c. c\<lparr>fillStyle := color cfg, strokeStyle := color cfg\<rparr>) s"
  have up: "\<And>F A s s'. F \<subseteq> frame_fields \<Longrightarrow> A \<subseteq> render_apis \<Longrightarrow> keeps F A s s'
              \<Longrightarrow> keeps frame_fields render_apis s s'"
    by (rule keeps_mono)
  from assms cc show ?thesis
  proof (cases rule: animate_steps)
    case (sample e)
    then show ?thesis by simp
  next
    case (scheduled s2 s3 s4)
    have "keeps frame_fields render_apis s ?s1"
      by (rule keeps_ctx_update) (simp add: frame_fields_def)
    moreover have "keeps frame_fields render_apis ?s1 s2"
      by (rule up[OF _ render_apis_mono(3) sampleFrame_keeps[OF scheduled(2)]]) (simp add: frame_fields_def)
    moreover have "keeps frame_fields render_apis s2 s3"
      by (rule up[OF _ render_apis_mono(2) clearRect_keeps[OF scheduled(3)]]) (simp add: frame_fields_def)
    moreover have "keeps frame_fields render_apis s3 s4"
      by (rule up[OF _ render_apis_mono(1) drawFrame_keeps[OF scheduled(4)]]) (simp add: frame_fields_def)
    moreover have "keeps frame_fields render_apis s4 s'"
      by (rule up[OF _ render_apis_mono(4) requestAnimationFrame_keeps[OF scheduled(5)]])
         (simp add: frame_fields_def)
    ultimately show ?thesis by (blast intro: keeps_trans)
  qed
qed


lemma hasRealAudio_cong:
  "analyser a = analyser b \<Longrightarrow> dataArray a = dataArray b \<Longrightarrow> hasRealAudio a = hasRealAudio b"
  by (simp add: hasRealAudio_def)

lemma hasRealAudio_Some:
  "hasRealAudio s \<Longrightarrow> \<exists>an arr. analyser s = Some an \<and> dataArray s = Some arr \<and> avgVolume arr > 5"
  by (auto simp: hasRealAudio_def split: option.splits)

lemma appended_from_empty:
  "appended ds s s' \<Longrightarrow> canvasContext s = Some c \<Longrightarrow> painted c = [] \<Longrightarrow>
     \<exists>c'. canvasContext s' = Some c' \<and> painted c' = ds"
  by (cases "canvasContext s'") (simp_all add: appended_def)

lemma animate_Normal:
  assumes "animate h cfg s = (Normal, s')" "canvasContext s = Some c" "canvas s = Some cv"
  shows "animationId s' = Some (Suc (rafSeq s))"
    and "rafQueue s' = rafQueue s @ [Suc (rafSeq s)]"
    and "dataArray s' = sampledArray h s"
    and "frameAudio h s \<Longrightarrow> visualizerType cfg = Bars \<and> waveTime s' = waveTime s \<and>
           (\<exists>arr c'. sampledArray h s = Some arr \<and> 5 < avgVolume arr \<and> canvasContext s' = Some c' \<and>
              painted c' = map (barsBar cfg cv arr (canvas_width cv / real (barCount cfg))
                                  (canvas_height cv / 255)) [0..<barCount cfg])"
    and "\<not> frameAudio h s \<Longrightarrow> waveTime s' = waveTime s + 5 / 100 \<and>
           (\<exists>c'. canvasContext s' = Some c' \<and>
              painted c' = map (idleBar cfg cv (canvas_width cv / real (barCount cfg))
                                  (canvas_height cv * (6 / 10)) (waveTime s + 5 / 100))
                             [0..<barCount cfg])"
proof -
  let ?s1 = "ctx_update (\<lambda>c. c\<lparr>fillStyle := color cfg, strokeStyle := color cfg\<rparr>) s"
  from assms obtain s2 s3 s4 where
    sm: "sampleFrame h ?s1 = (Normal, s2)" and cl: "clearRect h s2 = (Normal, s3)" and
    dr: "drawFrame h cfg (hasRealAudio s2) s3 = (Normal, s4)" and
    rf: "requestAnimationFrame h s4 = (Normal, s')"
    by (cases rule: animate_steps) simp_all
  have f1: "analyser ?s1 = analyser s" "dataArray ?s1 = dataArray s" "canvas ?s1 = Some cv"
    "waveTime ?s1 = waveTime s" "rafSeq ?s1 = rafSeq s" "rafQueue ?s1 = rafQueue s"
    "\<exists>c1. canvasContext ?s1 = Some c1"
    using assms(2,3) by (simp_all add: ctx_update_def)
  have sa: "sampledArray h ?s1 = sampledArray h s"
    by (simp add: sampledArray_def f1 split: option.splits)
  note k2 = sampleFrame_keeps[OF sm]
  have f2: "analyser s2 = analyser s" "dataArray s2 = sampledArray h s" "canvas s2 = Some cv"
    "waveTime s2 = waveTime s" "rafSeq s2 = rafSeq s" "rafQueue s2 = rafQueue s"
    "\<exists>c2. canvasContext s2 = Some c2"
    using k2 f1 sampleFrame_Normal[OF sm] sa by (simp_all add: keeps_def)
  have au: "hasRealAudio s2 = frameAudio h s"
    unfolding frameAudio_def by (rule hasRealAudio_cong) (simp_all add: f2)
  note k3 = clearRect_keeps[OF cl]
  from f2(7) obtain c2 where c2: "canvasContext s2 = Some c2" by blast
  from clearRect_Normal[OF cl c2] obtain c3 where c3: "canvasContext s3 = Some c3" "painted c3 = []"
    by blast
  have f3: "analyser s3 = analyser s" "dataArray s3 = sampledArray h s" "canvas s3 = Some cv"
    "waveTime s3 = waveTime s" "rafSeq s3 = rafSeq s" "rafQueue s3 = rafQueue s"
    using k3 f2 by (simp_all add: keeps_def)
  note k4 = drawFrame_keeps[OF dr]
  have f4: "dataArray s4 = sampledArray h s" "rafSeq s4 = rafSeq s" "rafQueue s4 = rafQueue s"
    using k4 f3 by (simp_all add: keeps_def)
  note r5 = requestAnimationFrame_Normal[OF rf]
  show "animationId s' = Some (Suc (rafSeq s))" using r5 f4 by simp
  show "rafQueue s' = rafQueue s @ [Suc (rafSeq s)]" using r5 f4 by simp
  show "dataArray s' = sampledArray h s" using r5 f4 by simp
  {
    assume fa: "frameAudio h s"
    with au have h2: "hasRealAudio s2" by simp
    from hasRealAudio_Some[OF h2] f2 obtain an arr where
      an: "analyser s = Some an" "sampledArray h s = Some arr" "5 < avgVolume arr" by auto
    have bars: "visualizerType cfg = Bars" and db: "drawBars h cfg s3 = (Normal, s4)"
      using dr h2 an f3
      by (auto simp: drawFrame_def drawWaveform_def drawCircular_def split: visualizerType.splits)
    have d3: "dataArray s3 = Some arr" using f3 an by simp
    from appended_from_empty[OF drawBars_Normal[OF db c3(1) f3(3) d3] c3]
    obtain c4 where c4: "canvasContext s4 = Some c4"
      "painted c4 = map (barsBar cfg cv arr (canvas_width cv / real (barCount cfg))
                                  (canvas_height cv / 255)) [0..<barCount cfg]" by blast
    have "waveTime s4 = waveTime s"
      using drawBars_outside[OF db] f3 by (simp add: keeps_def)
    with bars an c4 r5
    show "visualizerType cfg = Bars \<and> waveTime s' = waveTime s \<and>
           (\<exists>arr c'. sampledArray h s = Some arr \<and> 5 < avgVolume arr \<and> canvasContext s' = Some c' \<and>
              painted c' = map (barsBar cfg cv arr (canvas_width cv / real (barCount cfg))
                                  (canvas_height cv / 255)) [0..<barCount cfg])"
      by simp
  }
  {
    assume fa: "\<not> frameAudio h s"
    with au dr have dw: "drawScrollingWave h cfg s3 = (Normal, s4)"
      by (simp add: drawFrame_def)
    note w = drawScrollingWave_Normal[OF dw c3(1) f3(3)]
    from appended_from_empty[OF w(2) c3] f3(4)
    obtain c4 where c4: "canvasContext s4 = Some c4"
      "painted c4 = map (idleBar cfg cv (canvas_width cv / real (barCount cfg))
                                  (canvas_height cv * (6 / 10)) (waveTime s + 5 / 100))
                             [0..<barCount cfg]" by auto
    from w(1) f3(4) c4 r5
    show "waveTime s' = waveTime s + 5 / 100 \<and>
           (\<exists>c'. canvasContext s' = Some c' \<and>
              painted c' = map (idleBar cfg cv (canvas_width cv / real (barCount cfg))
                                  (canvas_height cv * (6 / 10)) (waveTime s + 5 / 100))
                             [0..<barCount cfg])"
      by simp
  }
qed

lemma hostcall_quiet: "faults h a = None \<Longrightarrow> hostcall h a s = (Normal, called a s)"
  by (simp add: hostcall_def)

lemma fillRect_completes: "quiet draw_apis h \<Longrightarrow> fst (fillRect h x y w ht s) = Normal"
  by (simp add: fillRect_def quiet_def draw_apis_def hostcall_quiet andThen_def)

lemma drawRoundedRect_completes:
  "quiet draw_apis h \<Longrightarrow> fst (drawRoundedRect h x y w ht r s) = Normal"
  by (simp add: drawRoundedRect_def quiet_def draw_apis_def hostcall_quiet andThen_def)

lemma wave_loop_completes:
  "quiet draw_apis h \<Longrightarrow> fst (drawScrollingWave_loop h cfg cv bw mh i s) = Normal"
proof (induction "barCount cfg - i" arbitrary: i s)
  case 0
  then show ?case by (simp add: wave_loop_done)
next
  case (Suc k)
  then have lt: "i < barCount cfg" and k: "k = barCount cfg - Suc i" by auto
  show ?case
    using Suc.hyps(1)[OF k Suc.prems] fillRect_completes[OF Suc.prems]
      drawRoundedRect_completes[OF Suc.prems]
    by (simp add: wave_loop_step[OF lt] split: prod.splits completion.splits)
       (metis completion.distinct(1) fst_conv)
qed

lemma bars_loop_completes:
  "quiet draw_apis h \<Longrightarrow> fst (drawBars_loop h cfg cv arr bw hs i s) = Normal"
proof (induction "barCount cfg - i" arbitrary: i s)
  case 0
  then show ?case by (simp add: bars_loop_done)
next
  case (Suc k)
  then have lt: "i < barCount cfg" and k: "k = barCount cfg - Suc i" by auto
  show ?case
    using Suc.hyps(1)[OF k Suc.prems] fillRect_completes[OF Suc.prems]
      drawRoundedRect_completes[OF Suc.prems]
    by (simp add: bars_loop_step[OF lt] split: prod.splits completion.splits)
       (metis completion.distinct(1) fst_conv)
qed

lemma drawScrollingWave_completes: "quiet draw_apis h \<Longrightarrow> fst (drawScrollingWave h cfg s) = Normal"
  by (simp add: drawScrollingWave_def Let_def wave_loop_completes split: option.splits)

lemma drawBars_completes: "quiet draw_apis h \<Longrightarrow> fst (drawBars h cfg s) = Normal"
  by (simp add: drawBars_def Let_def bars_loop_completes split: option.splits)

lemma andThen_completes:
  "fst r = Normal \<Longrightarrow> (\<And>s. fst (f s) = Normal) \<Longrightarrow> fst (andThen r f) = Normal"
  by (cases r) (simp add: andThen_def)

lemma animate_completes:
  assumes "quiet render_apis h" "visualizerType cfg = Bars"
  shows "fst (animate h cfg s) = Normal"
proof (cases "canvasContext s = None \<or> canvas s = None")
  case True
  then show ?thesis by (simp add: animate_no_canvas)
next
  case False
  then obtain c cv where cc: "canvasContext s = Some c" "canvas s = Some cv" by auto
  have q: "quiet draw_apis h" "faults h ClearRect = None" "faults h GetByteFrequencyData = None"
    "faults h RequestAnimationFrame = None"
    using assms(1) by (simp_all add: quiet_def render_apis_def)
  have 1: "\<And>s. fst (sampleFrame h s) = Normal"
    by (simp add: sampleFrame_def hostcall_quiet[OF q(3)] andThen_def split: option.splits)
  have 2: "\<And>s. fst (clearRect h s) = Normal"
    by (simp add: clearRect_def hostcall_quiet[OF q(2)] andThen_def)
  have 3: "\<And>b s. fst (drawFrame h cfg b s) = Normal"
    by (simp add: drawFrame_def assms(2) drawBars_completes[OF q(1)]
          drawScrollingWave_completes[OF q(1)])
  have 4: "\<And>s. fst (requestAnimationFrame h s) = Normal"
    by (simp add: requestAnimationFrame_def hostcall_quiet[OF q(4)] andThen_def)
  show ?thesis
    unfolding animate_unfold[OF cc]
    by (intro andThen_completes 1 2 3 4)
qed

section \<open>Bars mode\<close>

lemma shown_canvas:
  "canvas shown = Some \<lparr>canvas_width = 200, canvas_height = 40\<rparr>"
  "canvasContext shown = Some \<lparr>fillStyle = ''#000000'', strokeStyle = ''#000000'', path = None,
                                 painted = []\<rparr>"
  "analyser shown = None" "dataArray shown = None" "waveTime shown = 0"
  "animationId shown = None" "rafQueue shown = []" "console shown = []" "rafSeq shown = 0"
  by (simp_all add: shown_def createVisualizerUI_def removeVisualizerUI_def initial_state_def
        config_def quiet_host_def Let_def)

lemma quiet_host_quiet: "quiet A quiet_host"
  by (simp add: quiet_def quiet_host_def)

lemma bar_index:
  assumes "i < bc" "arr \<noteq> []"
  shows "nat \<lfloor>real i * (real (length arr) / real bc)\<rfloor> = (i * length arr) div bc"
    and "nat \<lfloor>real i * (real (length arr) / real bc)\<rfloor> < length arr"
proof -
  have "real i * (real (length arr) / real bc) = real (i * length arr) / real bc" by simp
  then have "\<lfloor>real i * (real (length arr) / real bc)\<rfloor> = int ((i * length arr) div bc)"
    by (simp only: floor_divide_of_nat_eq)
  then show e: "nat \<lfloor>real i * (real (length arr) / real bc)\<rfloor> = (i * length arr) div bc"
    by simp
  have "i * length arr < length arr * bc" using assms by simp
  then have "(i * length arr) div bc < length arr"
    by (rule less_mult_imp_div_less)
  with e show "nat \<lfloor>real i * (real (length arr) / real bc)\<rfloor> < length arr" by simp
qed

lemma barsBar_fields:
  "dc_x (barsBar cfg cv arr bw hs i) = real i * bw"
  "dc_w (barsBar cfg cv arr bw hs i) = bw - 1"
  "dc_h (barsBar cfg cv arr bw hs i) =
     map_option (\<lambda>v. v * sensitivity cfg * hs)
       (readByte arr (nat \<lfloor>real i * (real (length arr) / real (barCount cfg))\<rfloor>))"
  "dc_y (barsBar cfg cv arr bw hs i) =
     map_option (\<lambda>bh. canvas_height cv - bh) (dc_h (barsBar cfg cv arr bw hs i))"
  by (simp_all add: barsBar_def Let_def)

lemma drawBars_painted:
  assumes "drawBars h cfg s = (Normal, s')" "canvasContext s = Some c" "canvas s = Some cv"
    "dataArray s = Some arr"
  shows "\<exists>c'. canvasContext s' = Some c' \<and>
           painted c' = painted c @ map (barsBar cfg cv arr (canvas_width cv / real (barCount cfg))
                                           (canvas_height cv / 255)) [0..<barCount cfg]"
  using drawBars_Normal[OF assms] assms(2)
  by (cases "canvasContext s'") (simp_all add: appended_def)


lemma loud_facts:
  "canvas loud = Some \<lparr>canvas_width = 200, canvas_height = 40\<rparr>"
  "canvasContext loud = Some \<lparr>fillStyle = ''#000000'', strokeStyle = ''#000000'', path = None,
                                 painted = []\<rparr>"
  "dataArray loud = Some (replicate 256 255)"
  "analyser loud = Some \<lparr>fftSize = 512, smoothingTimeConstant = 4 / 5\<rparr>"
  by (simp_all add: loud_def shown_canvas)

lemma completes_eq: "fst r = Normal \<Longrightarrow> r = (Normal, snd r)"
  by (cases r) simp


text \<open>
  Claim C10. Bar heights are not clamped to the surface: with sensitivity 1.5 and the height
  scale \<open>surfaceHeight / 255\<close>, a bar whose bin value is above 170 is higher than the surface
  and its y-coordinate \<open>surfaceHeight - barHeight\<close> is negative.
\<close>

theorem bars_exceed_surface:
  assumes "drawBars h cfg s = (Normal, s')" "canvasContext s = Some c" "canvas s = Some cv"
    "dataArray s = Some arr" "arr \<noteq> []" "sensitivity cfg = 3 / 2" "0 < canvas_height cv"
    "i < barCount cfg" "170 < unat (arr ! ((i * length arr) div barCount cfg))"
  shows "\<exists>c' ds bh y. canvasContext s' = Some c' \<and> painted c' = painted c @ ds \<and>
           dc_h (ds ! i) = Some bh \<and> dc_y (ds ! i) = Some y \<and>
           bh = real (unat (arr ! ((i * length arr) div barCount cfg))) * (3 / 2)
                  * (canvas_height cv / 255) \<and>
           y = canvas_height cv - bh \<and> canvas_height cv < bh \<and> y < 0"
proof -
  let ?bw = "canvas_width cv / real (barCount cfg)"
  let ?ds = "map (barsBar cfg cv arr ?bw (canvas_height cv / 255)) [0..<barCount cfg]"
  let ?v = "real (unat (arr ! ((i * length arr) div barCount cfg)))"
  let ?bh = "?v * (3 / 2) * (canvas_height cv / 255)"
  from drawBars_painted[OF assms(1-4)] obtain c' where
    c': "canvasContext s' = Some c'" "painted c' = painted c @ ?ds" by blast
  have hgt: "dc_h (?ds ! i) = Some ?bh" "dc_y (?ds ! i) = Some (canvas_height cv - ?bh)"
    using bar_index[OF assms(8) assms(5)] assms(6,8)
    by (simp_all add: barsBar_fields readByte_def)
  have "171 \<le> unat (arr ! ((i * length arr) div barCount cfg))" using assms(9) by simp
  from of_nat_mono[OF this, where 'a = real] have "171 \<le> ?v" by simp
  then have "171 * (3 / 2) * (canvas_height cv / 255) \<le> ?bh"
    using assms(7) by (simp add: mult_right_mono)
  moreover have "canvas_height cv < 171 * (3 / 2) * (canvas_height cv / 255)"
    using assms(7) by simp
  ultimately have big: "canvas_height cv < ?bh" by linarith
  show ?thesis
    using c' hgt big
    by (intro exI[of _ c'] exI[of _ ?ds] exI[of _ ?bh] exI[of _ "canvas_height cv - ?bh"]) simp
qed

theorem bars_exceed_surface_witness:
  "\<exists>c' ds. canvasContext (snd (drawBars quiet_host (config rounded_settings) loud)) = Some c' \<and>
      painted c' = ds \<and> dc_h (ds ! 7) = Some 60 \<and> dc_y (ds ! 7) = Some (- 20)"
proof -
  let ?cfg = "config rounded_settings"
  have e: "drawBars quiet_host ?cfg loud = (Normal, snd (drawBars quiet_host ?cfg loud))"
    by (rule completes_eq[OF drawBars_completes[OF quiet_host_quiet]])
  have ne: "replicate 256 (255 :: 8 word) \<noteq> []" by simp
  have cfg: "barCount ?cfg = 50" "sensitivity ?cfg = 3 / 2"
    by (simp_all add: config_def rounded_settings_def)
  have pos: "0 < canvas_height \<lparr>canvas_width = 200, canvas_height = 40\<rparr>" by simp
  have i: "7 < barCount ?cfg" by (simp add: cfg)
  have v: "170 < unat (replicate 256 (255 :: 8 word) ! ((7 * length (replicate 256 (255 :: 8 word)))
                         div barCount ?cfg))"
    by (simp add: cfg)
  from bars_exceed_surface[OF e loud_facts(2) loud_facts(1) loud_facts(3) ne cfg(2) pos i v]
  show ?thesis by (auto simp: cfg)
qed

section \<open>Draw calls and exceptions of a frame\<close>

lemma idleBarHeight_ge_2:
  assumes "0 \<le> mh"
  shows "2 \<le> idleBarHeight mh bc t i"
proof -
  define a where "a = sin (real i / real bc * pi * 2 + t)"
  define b where "b = sin (real i / real bc * pi * 4 + t * (13 / 10))"
  define c where "c = sin (real i / real bc * pi * 6 + t * (7 / 10))"
  define d where "d = sin (real i / real bc * pi * 3 - t * 2)"
  have bounds: "- 1 \<le> a" "- 1 \<le> b" "- 1 \<le> c" "- 1 \<le> d"
    unfolding a_def b_def c_def d_def by (rule sin_ge_minus_one)+
  have "0 \<le> 3 * a + 2 * b + c + 10" using bounds by linarith
  then have comb: "0 \<le> (a * (3 / 10) + b * (2 / 10) + c * (1 / 10) + 1) / 2"
    by (simp add: field_simps)
  have "0 \<le> d + 1" using bounds by linarith
  then have travel: "0 \<le> d * (1 / 2) + 1 / 2"
    by (simp add: field_simps)
  have "0 \<le> mh * ((a * (3 / 10) + b * (2 / 10) + c * (1 / 10) + 1) / 2)
              * (d * (1 / 2) + 1 / 2) * (8 / 10)"
    using assms comb travel by (intro mult_nonneg_nonneg) simp_all
  then show ?thesis
    unfolding idleBarHeight_def a_def b_def c_def d_def by simp
qed

lemma idleBar_height: "dc_h (idleBar cfg cv bw mh t i) = Some (idleBarHeight mh (barCount cfg) t i)"
  by (simp add: idleBar_def Let_def)

lemma avgVolume_Nil: "avgVolume [] = 0"
  by (simp add: avgVolume_def)

lemma barsBar_height_nonneg:
  assumes "i < barCount cfg" "arr \<noteq> []" "0 \<le> sensitivity cfg" "0 \<le> hs"
  shows "\<exists>bh. dc_h (barsBar cfg cv arr bw hs i) = Some bh \<and> 0 \<le> bh"
proof -
  let ?k = "(i * length arr) div barCount cfg"
  have "0 \<le> real (unat (arr ! ?k))" by (rule of_nat_0_le_iff)
  then have "0 \<le> real (unat (arr ! ?k)) * sensitivity cfg * hs"
    using assms(3,4) by (intro mult_nonneg_nonneg)
  then show ?thesis
    using bar_index[OF assms(1,2)] by (simp add: barsBar_fields readByte_def)
qed

text \<open>
  Claim C6. A frame that is rendered (a surface exists and the frame completes), whether it
  draws real audio in bars mode or the idle scrolling wave, issues exactly \<open>barCount\<close> bar
  draw calls, each with a non-negative height; in the idle branch each height is at least 2.
  This holds for every bar count, 0 included.
\<close>

theorem frame_draw_calls:
  assumes "animate h cfg s = (Normal, s')" "canvasContext s = Some c" "canvas s = Some cv"
    "0 \<le> sensitivity cfg" "0 \<le> canvas_height cv"
  shows "\<exists>c'. canvasContext s' = Some c' \<and> length (painted c') = barCount cfg \<and>
           (\<forall>d\<in>set (painted c'). \<exists>bh. dc_h d = Some bh \<and> 0 \<le> bh) \<and>
           (\<not> frameAudio h s \<longrightarrow> (\<forall>d\<in>set (painted c'). \<exists>bh. dc_h d = Some bh \<and> 2 \<le> bh))"
proof (cases "frameAudio h s")
  case True
  from animate_Normal(4)[OF assms(1-3) True] obtain arr c' where
    a: "sampledArray h s = Some arr" "5 < avgVolume arr" "canvasContext s' = Some c'"
       "painted c' = map (barsBar cfg cv arr (canvas_width cv / real (barCount cfg))
                            (canvas_height cv / 255)) [0..<barCount cfg]"
    by blast
  from a(2) have ne: "arr \<noteq> []" by (auto simp: avgVolume_Nil)
  have hs: "0 \<le> canvas_height cv / 255" using assms(5) by simp
  have "\<forall>d\<in>set (painted c'). \<exists>bh. dc_h d = Some bh \<and> 0 \<le> bh"
    using barsBar_height_nonneg[OF _ ne assms(4) hs] by (auto simp: a(4))
  with a True show ?thesis by simp
next
  case False
  from animate_Normal(5)[OF assms(1-3) False] obtain c' where
    a: "canvasContext s' = Some c'"
       "painted c' = map (idleBar cfg cv (canvas_width cv / real (barCount cfg))
                            (canvas_height cv * (6 / 10)) (waveTime s + 5 / 100))
                       [0..<barCount cfg]"
    by blast
  have mh: "0 \<le> canvas_height cv * (6 / 10)" using assms(5) by simp
  have two: "\<forall>d\<in>set (painted c'). \<exists>bh. dc_h d = Some bh \<and> 2 \<le> bh"
    using idleBarHeight_ge_2[OF mh] by (auto simp: a(2) idleBar_height)
  then have "\<forall>d\<in>set (painted c'). \<exists>bh. dc_h d = Some bh \<and> 0 \<le> bh"
    by (meson order_trans zero_le_numeral)
  with a two show ?thesis by simp
qed

lemma shown_idle: "\<not> frameAudio h shown"
  by (simp add: frameAudio_def hasRealAudio_def shown_canvas)

theorem frame_draw_calls_witness:
  "\<exists>c'. canvasContext (snd (animate quiet_host (config rounded_settings) shown)) = Some c' \<and>
      length (painted c') = 50 \<and>
      (\<forall>d\<in>set (painted c'). \<exists>bh. dc_h d = Some bh \<and> 2 \<le> bh)"
proof -
  let ?cfg = "config rounded_settings"
  have cfg: "barCount ?cfg = 50" "sensitivity ?cfg = 3 / 2" "visualizerType ?cfg = Bars"
    by (simp_all add: config_def rounded_settings_def)
  have e: "animate quiet_host ?cfg shown = (Normal, snd (animate quiet_host ?cfg shown))"
    by (rule completes_eq[OF animate_completes[OF quiet_host_quiet cfg(3)]])
  have s: "0 \<le> sensitivity ?cfg" by (simp add: cfg)
  have p: "0 \<le> canvas_height \<lparr>canvas_width = 200, canvas_height = 40\<rparr>" by simp
  from frame_draw_calls[OF e shown_canvas(2) shown_canvas(1) s p] shown_idle[of quiet_host]
  show ?thesis unfolding cfg by blast
qed



lemma rounded_cfg:
  "barCount (config rounded_settings) = 50" "barRounding (config rounded_settings)"
  "visualizerType (config rounded_settings) = Bars" "sensitivity (config rounded_settings) = 3 / 2"
  by (simp_all add: config_def rounded_settings_def)





section \<open>The idle wave\<close>

lemma getByteFrequencyData_idem:
  "getByteFrequencyData h (getByteFrequencyData h arr) = getByteFrequencyData h arr"
  by (cases "length arr \<le> length (frequencyData h)") (simp_all add: getByteFrequencyData_def)

lemma sampledArray_idem:
  assumes "dataArray s1 = sampledArray h s" "analyser s1 = analyser s"
  shows "sampledArray h s1 = sampledArray h s"
  using assms
  by (auto simp: sampledArray_def getByteFrequencyData_idem split: option.splits)

lemma frameAudio_next:
  assumes "dataArray s1 = sampledArray h s" "analyser s1 = analyser s"
  shows "frameAudio h s1 = frameAudio h s"
  unfolding frameAudio_def
  by (rule hasRealAudio_cong) (simp_all add: assms sampledArray_idem[OF assms])

lemma animateTimes_idle:
  assumes "animateTimes n h cfg s = (Normal, s')" "\<not> frameAudio h s"
    "canvasContext s = Some c" "canvas s = Some cv"
  shows "waveTime s' = waveTime s + real n * (5 / 100) \<and>
         (0 < n \<longrightarrow> (\<exists>c'. canvasContext s' = Some c' \<and>
            painted c' = map (idleBar cfg cv (canvas_width cv / real (barCount cfg))
                                (canvas_height cv * (6 / 10)) (waveTime s + real n * (5 / 100)))
                           [0..<barCount cfg]))"
  using assms
proof (induction n arbitrary: s c)
  case 0
  then show ?case by simp
next
  case (Suc n)
  from Suc.prems(1) obtain s1 where
    a: "animate h cfg s = (Normal, s1)" and r: "animateTimes n h cfg s1 = (Normal, s')"
    by (auto simp: andThen_Normal)
  note an = animate_Normal[OF a Suc.prems(3,4)]
  from an(5)[OF Suc.prems(2)] obtain c1 where
    w1: "waveTime s1 = waveTime s + 5 / 100" and c1: "canvasContext s1 = Some c1" and
    p1: "painted c1 = map (idleBar cfg cv (canvas_width cv / real (barCount cfg))
                             (canvas_height cv * (6 / 10)) (waveTime s + 5 / 100))
                        [0..<barCount cfg]"
    by blast
  have k: "analyser s1 = analyser s" "canvas s1 = Some cv"
    using animate_keeps[OF a] Suc.prems(4) by (simp_all add: keeps_def frame_fields_def)
  have idle1: "\<not> frameAudio h s1"
    using frameAudio_next[OF an(3) k(1)] Suc.prems(2) by simp
  have te: "waveTime s1 + real n * (5 / 100) = waveTime s + real (Suc n) * (5 / 100)"
    using w1 by (simp add: algebra_simps)
  note ih = Suc.IH[OF r idle1 c1 k(2), unfolded te]
  have wt: "waveTime s' = waveTime s + real (Suc n) * (5 / 100)"
    using ih by blast
  show ?case
  proof (cases n)
    case 0
    with r have "s' = s1" by simp
    with c1 p1 wt 0 show ?thesis by auto
  next
    case (Suc m)
    then have "0 < n" by simp
    with ih show ?thesis by blast
  qed
qed

lemma animateTimes_completes:
  assumes "quiet render_apis h" "visualizerType cfg = Bars"
  shows "fst (animateTimes n h cfg s) = Normal"
proof (induction n arbitrary: s)
  case 0
  show ?case by simp
next
  case (Suc n)
  show ?case
    by (simp add: andThen_completes[OF animate_completes[OF assms]] Suc.IH)
qed

text \<open>
  Claim C7. The idle wave is deterministic. Two runs of the same number of consecutive idle
  frames, started at the same wave time on surfaces of the same height and with the same bar
  count, paint bars of the same heights, whatever else differs between them (host, colour,
  rounding, surface width, the rest of the state); the height of bar \<open>i\<close> is the function
  \<open>idleBarHeight\<close> of the index, the number of elapsed 0.05 steps and the bar count.
\<close>

theorem idle_wave_deterministic:
  assumes "animateTimes (Suc n) h1 cfg1 s1 = (Normal, s1')"
    and "animateTimes (Suc n) h2 cfg2 s2 = (Normal, s2')"
    and "\<not> frameAudio h1 s1" and "\<not> frameAudio h2 s2"
    and "canvasContext s1 = Some c1" and "canvas s1 = Some cv1"
    and "canvasContext s2 = Some c2" and "canvas s2 = Some cv2"
    and "canvas_height cv1 = canvas_height cv2" and "waveTime s1 = waveTime s2"
    and "barCount cfg1 = barCount cfg2"
  shows "\<exists>p1 p2. canvasContext s1' = Some p1 \<and> canvasContext s2' = Some p2 \<and>
           map dc_h (painted p1) = map dc_h (painted p2) \<and>
           map dc_h (painted p1) =
             map (\<lambda>i. Some (idleBarHeight (canvas_height cv1 * (6 / 10)) (barCount cfg1)
                              (waveTime s1 + real (Suc n) * (5 / 100)) i))
               [0..<barCount cfg1]"
proof -
  from animateTimes_idle[OF assms(1,3,5,6)] obtain p1 where
    p1: "canvasContext s1' = Some p1"
      "painted p1 = map (idleBar cfg1 cv1 (canvas_width cv1 / real (barCount cfg1))
                           (canvas_height cv1 * (6 / 10)) (waveTime s1 + real (Suc n) * (5 / 100)))
                      [0..<barCount cfg1]"
    by auto
  from animateTimes_idle[OF assms(2,4,7,8)] obtain p2 where
    p2: "canvasContext s2' = Some p2"
      "painted p2 = map (idleBar cfg2 cv2 (canvas_width cv2 / real (barCount cfg2))
                           (canvas_height cv2 * (6 / 10)) (waveTime s2 + real (Suc n) * (5 / 100)))
                      [0..<barCount cfg2]"
    by auto
  have h1: "map dc_h (painted p1) =
             map (\<lambda>i. Some (idleBarHeight (canvas_height cv1 * (6 / 10)) (barCount cfg1)
                              (waveTime s1 + real (Suc n) * (5 / 100)) i))
               [0..<barCount cfg1]"
    unfolding p1(2) by (simp add: idleBar_height comp_def)
  have h2: "map dc_h (painted p2) =
             map (\<lambda>i. Some (idleBarHeight (canvas_height cv2 * (6 / 10)) (barCount cfg2)
                              (waveTime s2 + real (Suc n) * (5 / 100)) i))
               [0..<barCount cfg2]"
    unfolding p2(2) by (simp add: idleBar_height comp_def)
  from h1 h2 assms(9-11) have "map dc_h (painted p1) = map dc_h (painted p2)" by simp
  with p1(1) p2(1) h1 show ?thesis by blast
qed

theorem idle_wave_deterministic_witness:
  "\<exists>p1 p2.
     canvasContext (snd (animateTimes 3 quiet_host (config square_settings) shown)) = Some p1 \<and>
     canvasContext (snd (animateTimes 3 quiet_host (config rounded_settings) shown)) = Some p2 \<and>
     map dc_h (painted p1) = map dc_h (painted p2) \<and>
     map dc_h (painted p1) = map (\<lambda>i. Some (idleBarHeight 24 50 (15 / 100) i)) [0..<50]"
proof -
  let ?a = "animateTimes (Suc 2) quiet_host (config square_settings) shown"
  let ?b = "animateTimes (Suc 2) quiet_host (config rounded_settings) shown"
  have sq: "visualizerType (config square_settings) = Bars" "barCount (config square_settings) = 50"
    by (simp_all add: config_def square_settings_def)
  have ea: "?a = (Normal, snd ?a)"
    by (rule completes_eq[OF animateTimes_completes[OF quiet_host_quiet sq(1)]])
  have eb: "?b = (Normal, snd ?b)"
    by (rule completes_eq[OF animateTimes_completes[OF quiet_host_quiet rounded_cfg(3)]])
  have bc: "barCount (config square_settings) = barCount (config rounded_settings)"
    by (simp add: sq rounded_cfg)
  from idle_wave_deterministic[OF ea eb shown_idle shown_idle shown_canvas(2) shown_canvas(1)
         shown_canvas(2) shown_canvas(1) refl refl bc]
  show ?thesis
    by (simp add: sq shown_canvas numeral_3_eq_3)
qed

section \<open>Properties of the acquisition routine\<close>

lemma initializeAudioVisualizer_try_stages:
  "initializeAudioVisualizer_try h cfg s =
     (case findAudioElement h of
        None \<Rightarrow> (Normal, s)
      | Some audioElement \<Rightarrow>
          andThen (ensureContext h s)
            (\<lambda>s. andThen (ensureAnalyser h cfg s) (connectStage h cfg audioElement)))"
  unfolding initializeAudioVisualizer_try_def ensureContext_def ensureAnalyser_def connectStage_def
  by (rule refl)

lemma quiet_lines:
  "quiet_line (Warn, m)" "quiet_line (Err, m)" "quiet_line fallback_line"
  "quiet_line (Info, ''[Audio Visualizer] Created AudioContext'')"
  "quiet_line (Info, ''[Audio Visualizer] Created AnalyserNode'')"
  "quiet_line (Info, ''[Audio Visualizer] Audio visualizer ready!'')"
  by (simp_all add: quiet_line_def attempt_line_def connected_direct_def connected_stream_def
        fallback_line_def)

lemma logs_quietly_refl: "logs_quietly s s"
  by (simp add: logs_quietly_def)

lemma logs_quietly_trans: "logs_quietly s s1 \<Longrightarrow> logs_quietly s1 s' \<Longrightarrow> logs_quietly s s'"
  by (auto simp: logs_quietly_def)

lemma logs_quietly_keeps: "keeps F A s s' \<Longrightarrow> F_console \<notin> F \<Longrightarrow> logs_quietly s s'"
  by (simp add: keeps_def logs_quietly_def)

lemma logs_quietly_line:
  "console s' = console s @ [l] \<Longrightarrow> quiet_line l \<Longrightarrow> logs_quietly s s'"
  by (simp add: logs_quietly_def)

lemma ensureContext_spec:
  assumes "ensureContext h s = (r, s')"
  shows "keeps {F_audioContext, F_console} {NewAudioContext} s s'"
    and "logs_quietly s s'"
    and "r = Normal \<Longrightarrow> audioContext s' \<noteq> None"
    and "audioContext s \<noteq> None \<or> faults h NewAudioContext = None \<Longrightarrow> r = Normal"
proof -
  show "keeps {F_audioContext, F_console} {NewAudioContext} s s'"
    using assms
    by (auto simp: ensureContext_def keeps_refl keeps_def called_def log_def calls_within_def
          split: if_splits dest!: andThen_cases hostcall_eq)
  show "logs_quietly s s'"
    using assms quiet_lines(4)
    by (auto simp: ensureContext_def logs_quietly_def called_def log_def
          split: if_splits dest!: andThen_cases hostcall_eq)
  show "r = Normal \<Longrightarrow> audioContext s' \<noteq> None"
    using assms
    by (auto simp: ensureContext_def log_def split: if_splits dest!: andThen_cases hostcall_eq)
  show "audioContext s \<noteq> None \<or> faults h NewAudioContext = None \<Longrightarrow> r = Normal"
    using assms
    by (auto simp: ensureContext_def hostcall_def andThen_def split: if_splits option.splits)
qed

lemma ensureAnalyser_spec:
  assumes "ensureAnalyser h cfg s = (r, s')"
  shows "keeps {F_analyser, F_dataArray, F_console} {CreateAnalyser} s s'"
    and "logs_quietly s s'"
    and "r = Normal \<Longrightarrow> analyser s' \<noteq> None"
    and "analyser s \<noteq> None \<or> faults h CreateAnalyser = None \<Longrightarrow> r = Normal"
proof -
  show "keeps {F_analyser, F_dataArray, F_console} {CreateAnalyser} s s'"
    using assms
    by (auto simp: ensureAnalyser_def keeps_refl keeps_def called_def log_def calls_within_def
          split: if_splits dest!: andThen_cases hostcall_eq)
  show "logs_quietly s s'"
    using assms quiet_lines(5)
    by (auto simp: ensureAnalyser_def logs_quietly_def called_def log_def
          split: if_splits dest!: andThen_cases hostcall_eq)
  show "r = Normal \<Longrightarrow> analyser s' \<noteq> None"
    using assms
    by (auto simp: ensureAnalyser_def log_def split: if_splits dest!: andThen_cases hostcall_eq)
  show "analyser s \<noteq> None \<or> faults h CreateAnalyser = None \<Longrightarrow> r = Normal"
    using assms
    by (auto simp: ensureAnalyser_def hostcall_def andThen_def split: if_splits option.splits)
qed

lemma tapDirect_Normal:
  assumes "tapDirect h el s = (Normal, s1)"
  shows "keeps {F_audioSource, F_console} connect_apis s s1"
    and "console s1 = console s @ [connected_direct]"
    and "\<not> directTapThrows h"
proof -
  show "keeps {F_audioSource, F_console} connect_apis s s1"
    using assms
    by (auto simp: tapDirect_def keeps_def called_def log_def calls_within_def connect_apis_def
          dest!: andThen_cases hostcall_eq)
  show "console s1 = console s @ [connected_direct]"
    using assms
    by (auto simp: tapDirect_def called_def log_def connected_direct_def
          dest!: andThen_cases hostcall_eq)
  show "\<not> directTapThrows h"
    using assms
    by (auto simp: tapDirect_def directTapThrows_def hostcall_def andThen_def
          split: option.splits)
qed

lemma tapDirect_Throw:
  assumes "tapDirect h el s = (Throw e, s1)"
  shows "keeps {F_audioSource} connect_apis s s1" and "directTapThrows h"
proof -
  show "keeps {F_audioSource} connect_apis s s1"
    using assms
    by (auto simp: tapDirect_def keeps_def called_def log_def calls_within_def connect_apis_def
          dest!: andThen_cases hostcall_eq)
  show "directTapThrows h"
    using assms
    by (auto simp: tapDirect_def directTapThrows_def hostcall_def andThen_def
          split: option.splits)
qed

lemma callCapture_keeps:
  "callCapture h a cap s = (res, s') \<Longrightarrow> a \<in> connect_apis \<Longrightarrow> keeps {} connect_apis s s'"
  by (auto simp: callCapture_def keeps_refl keeps_called split: capture.splits prod.splits
        completion.splits dest!: hostcall_eq)

lemma callCapture_result:
  "callCapture h a cap s = (res, s') \<Longrightarrow>
     res = (case cap of Unsupported \<Rightarrow> Inr None
            | Returns r \<Rightarrow> (case faults h a of None \<Rightarrow> Inr r | Some e \<Rightarrow> Inl e))"
  by (auto simp: callCapture_def hostcall_def split: capture.splits option.splits)

lemma obtainStream_keeps:
  assumes "obtainStream h el s = (res, s')"
  shows "keeps {} connect_apis s s'"
proof -
  obtain r1 s1 where c1: "callCapture h CaptureStream (captureStream el) s = (r1, s1)"
    by (metis surj_pair)
  have k1: "keeps {} connect_apis s s1"
    by (rule callCapture_keeps[OF c1]) (simp add: connect_apis_def)
  show ?thesis
  proof (cases "r1 = Inr None")
    case True
    with assms c1 have "callCapture h MozCaptureStream (mozCaptureStream el) s1 = (res, s')"
      by (simp add: obtainStream_def)
    from callCapture_keeps[OF this] have "keeps {} connect_apis s1 s'"
      by (simp add: connect_apis_def)
    with k1 show ?thesis by (rule keeps_trans)
  next
    case False
    with assms c1 have "s' = s1"
      by (auto simp: obtainStream_def split: sum.splits option.splits)
    with k1 show ?thesis by simp
  qed
qed

lemma obtainStream_result:
  assumes "obtainStream h el s = (res, s')"
  shows "streamOf h el = (case res of Inr r \<Rightarrow> r | Inl e \<Rightarrow> None)"
proof -
  obtain r1 s1 where c1: "callCapture h CaptureStream (captureStream el) s = (r1, s1)"
    by (metis surj_pair)
  note e1 = callCapture_result[OF c1]
  show ?thesis
  proof (cases "r1 = Inr None")
    case True
    with assms c1 have c2: "callCapture h MozCaptureStream (mozCaptureStream el) s1 = (res, s')"
      by (simp add: obtainStream_def)
    note e2 = callCapture_result[OF c2]
    from True e1 e2 show ?thesis
      by (auto simp: streamOf_def split: capture.splits option.splits)
  next
    case False
    with assms c1 have "res = r1"
      by (auto simp: obtainStream_def split: sum.splits option.splits)
    with False e1 show ?thesis
      by (auto simp: streamOf_def split: capture.splits option.splits)
  qed
qed

lemma tapStream_Normal:
  assumes "tapStream h el s = (Normal, s2)"
  shows "keeps {F_console} connect_apis s s2"
    and "console s2 = console s @ [connected_stream]"
    and "fallbackSucceeds h el"
proof -
  obtain res s1 where o: "obtainStream h el s = (res, s1)" by (metis surj_pair)
  from assms o obtain st where st: "res = Inr (Some st)"
    by (auto simp: tapStream_def split: sum.splits option.splits)
  have k1: "keeps {F_console} connect_apis s s1"
    by (rule keeps_mono[OF _ _ obtainStream_keeps[OF o]]) simp_all
  from assms o st have rest:
    "andThen (hostcall h CreateMediaStreamSource s1) (\<lambda>s.
       andThen (hostcall h StreamSourceConnect s) (\<lambda>s.
       andThen (hostcall h (AnalyserConnect Fallback) s) (\<lambda>s.
         (Normal, log ''Connected via captureStream'' s)))) = (Normal, s2)"
    by (simp add: tapStream_def)
  have k2: "keeps {F_console} connect_apis s1 s2"
    using rest
    by (auto simp: keeps_def called_def log_def calls_within_def connect_apis_def
          dest!: andThen_cases hostcall_eq)
  show "keeps {F_console} connect_apis s s2" by (rule keeps_trans[OF k1 k2])
  have "console s1 = console s" using obtainStream_keeps[OF o] by (simp add: keeps_def)
  moreover have "console s2 = console s1 @ [connected_stream]"
    using rest
    by (auto simp: called_def log_def connected_stream_def dest!: andThen_cases hostcall_eq)
  ultimately show "console s2 = console s @ [connected_stream]" by simp
  have "faults h CreateMediaStreamSource = None \<and> faults h StreamSourceConnect = None \<and>
        faults h (AnalyserConnect Fallback) = None"
    using rest by (auto simp: hostcall_def andThen_def split: option.splits)
  moreover have "streamOf h el = Some st"
    using obtainStream_result[OF o] st by simp
  ultimately show "fallbackSucceeds h el" by (simp add: fallbackSucceeds_def)
qed

lemma tapStream_Throw:
  assumes "tapStream h el s = (Throw e, s2)"
  shows "keeps {} connect_apis s s2" and "\<not> fallbackSucceeds h el"
proof -
  obtain res s1 where o: "obtainStream h el s = (res, s1)" by (metis surj_pair)
  note k1 = obtainStream_keeps[OF o]
  note sr = obtainStream_result[OF o]
  show "keeps {} connect_apis s s2"
  proof (cases "\<exists>st. res = Inr (Some st)")
    case True
    then obtain st where st: "res = Inr (Some st)" by blast
    from assms o st have rest:
      "andThen (hostcall h CreateMediaStreamSource s1) (\<lambda>s.
         andThen (hostcall h StreamSourceConnect s) (\<lambda>s.
         andThen (hostcall h (AnalyserConnect Fallback) s) (\<lambda>s.
           (Normal, log ''Connected via captureStream'' s)))) = (Throw e, s2)"
      by (simp add: tapStream_def)
    have "keeps {} connect_apis s1 s2"
      using rest
      by (auto simp: keeps_def called_def calls_within_def connect_apis_def
            dest!: andThen_cases hostcall_eq)
    with k1 show ?thesis by (rule keeps_trans)
  next
    case False
    with assms o have "s2 = s1"
      by (auto simp: tapStream_def split: sum.splits option.splits)
    with k1 show ?thesis by simp
  qed
  show "\<not> fallbackSucceeds h el"
  proof (cases "\<exists>st. res = Inr (Some st)")
    case True
    then obtain st where st: "res = Inr (Some st)" by blast
    from assms o st have rest:
      "andThen (hostcall h CreateMediaStreamSource s1) (\<lambda>s.
         andThen (hostcall h StreamSourceConnect s) (\<lambda>s.
         andThen (hostcall h (AnalyserConnect Fallback) s) (\<lambda>s.
           (Normal, log ''Connected via captureStream'' s)))) = (Throw e, s2)"
      by (simp add: tapStream_def)
    then show ?thesis
      by (auto simp: fallbackSucceeds_def hostcall_def andThen_def split: option.splits)
  next
    case False
    with sr have "streamOf h el = None"
      by (cases res) (auto split: option.splits)
    then show ?thesis by (simp add: fallbackSucceeds_def)
  qed
qed

lemma createVisualizerUI_spec:
  "keeps {F_visualizerContainer, F_canvas, F_canvasContext, F_console} {} s (createVisualizerUI h cfg s)"
  "logs_quietly s (createVisualizerUI h cfg s)"
proof -
  show "keeps {F_visualizerContainer, F_canvas, F_canvasContext, F_console} {} s
          (createVisualizerUI h cfg s)"
    by (simp add: createVisualizerUI_def removeVisualizerUI_def Let_def keeps_def warn_def
          calls_within_def)
  show "logs_quietly s (createVisualizerUI h cfg s)"
    using quiet_lines(1)
    by (simp add: createVisualizerUI_def removeVisualizerUI_def Let_def warn_def logs_quietly_def)
qed

lemma resumeAndShow_spec:
  assumes "resumeAndShow h cfg s = (r, s')"
  shows "keeps show_fields show_apis s s'" and "logs_quietly s s'"
proof -
  define s1 where "s1 = (if contextState h = Suspended then called Resume s else s)"
  define s2 where "s2 = (if visualizerContainer s1 = None then createVisualizerUI h cfg s1 else s1)"
  have up: "\<And>F A s s'. F \<subseteq> show_fields \<Longrightarrow> A \<subseteq> show_apis \<Longrightarrow> keeps F A s s'
              \<Longrightarrow> keeps show_fields show_apis s s'"
    by (rule keeps_mono)
  have k1: "keeps show_fields show_apis s s1"
    by (simp add: s1_def keeps_refl keeps_called show_apis_def)
  have l1: "logs_quietly s s1"
    by (simp add: s1_def logs_quietly_def called_def)
  have kc: "keeps show_fields show_apis s1 (createVisualizerUI h cfg s1)"
    by (rule up[OF _ _ createVisualizerUI_spec(1)])
       (simp_all add: show_fields_def frame_fields_def)
  have k2: "keeps show_fields show_apis s1 s2"
    unfolding s2_def using kc by (simp add: keeps_refl)
  have l2: "logs_quietly s1 s2"
    unfolding s2_def using createVisualizerUI_spec(2)[of s1 h cfg] by (simp add: logs_quietly_refl)
  have r: "(if animationId s2 = None then animate h cfg s2 else (Normal, s2)) = (r, s')"
    using assms unfolding resumeAndShow_def Let_def s1_def s2_def .
  have k3: "keeps show_fields show_apis s2 s'"
  proof (cases "animationId s2 = None")
    case True
    with r have "animate h cfg s2 = (r, s')" by simp
    from up[OF _ _ animate_keeps[OF this]] show ?thesis
      by (auto simp: show_fields_def show_apis_def)
  next
    case False
    with r show ?thesis by (simp add: keeps_refl)
  qed
  have l3: "logs_quietly s2 s'"
  proof (cases "animationId s2 = None")
    case True
    with r have "animate h cfg s2 = (r, s')" by simp
    from logs_quietly_keeps[OF animate_keeps[OF this]] show ?thesis
      by (simp add: frame_fields_def)
  next
    case False
    with r show ?thesis by (simp add: logs_quietly_refl)
  qed
  show "keeps show_fields show_apis s s'"
    by (rule keeps_trans[OF keeps_trans[OF k1 k2] k3])
  show "logs_quietly s s'"
    by (rule logs_quietly_trans[OF logs_quietly_trans[OF l1 l2] l3])
qed

lemma initializeAudioVisualizer_try_paths:
  assumes "initializeAudioVisualizer_try h cfg s = (r, s')"
  obtains
    (notfound) "findAudioElement h = None" "r = Normal" "s' = s"
  | (unprepared) el e where "findAudioElement h = Some el" "r = Throw e"
      "keeps {F_audioContext, F_analyser, F_dataArray, F_console} {NewAudioContext, CreateAnalyser} s s'"
      "logs_quietly s s'"
      "audioContext s = None \<and> faults h NewAudioContext \<noteq> None \<or>
       analyser s = None \<and> faults h CreateAnalyser \<noteq> None"
  | (skip) el sB where "findAudioElement h = Some el" "prepared s sB"
      "isSourceConnected sB \<or> \<not> differs el (currentAudioElement sB)"
      "resumeAndShow h cfg sB = (r, s')"
  | (direct) el sB s1 where "findAudioElement h = Some el" "prepared s sB"
      "\<not> isSourceConnected sB" "differs el (currentAudioElement sB)"
      "tapDirect h el sB = (Normal, s1)"
      "resumeAndShow h cfg (s1\<lparr>currentAudioElement := Some el, isSourceConnected := True\<rparr>) = (r, s')"
  | (fallback) el sB e s1 s2 where "findAudioElement h = Some el" "prepared s sB"
      "\<not> isSourceConnected sB" "differs el (currentAudioElement sB)"
      "tapDirect h el sB = (Throw e, s1)"
      "tapStream h el (log ''MediaElementSource failed, attempting captureStream fallback...'' s1)
         = (Normal, s2)"
      "resumeAndShow h cfg (s2\<lparr>currentAudioElement := Some el, isSourceConnected := True\<rparr>) = (r, s')"
  | (failed) el sB e s1 e2 s2 where "findAudioElement h = Some el" "prepared s sB"
      "\<not> isSourceConnected sB" "differs el (currentAudioElement sB)"
      "tapDirect h el sB = (Throw e, s1)"
      "tapStream h el (log ''MediaElementSource failed, attempting captureStream fallback...'' s1)
         = (Throw e2, s2)"
      "r = Normal"
      "s' = console_error e2 (error ''Failed to hook audio for visualization on this platform'' s2)"
proof (cases "findAudioElement h")
  case None
  with assms have "r = Normal" "s' = s"
    by (simp_all add: initializeAudioVisualizer_try_stages)
  with None show ?thesis by (rule notfound)
next
  case (Some el)
  let ?F = "{F_audioContext, F_analyser, F_dataArray, F_console}"
  let ?A = "{NewAudioContext, CreateAnalyser}"
  from assms Some have run:
    "andThen (ensureContext h s) (\<lambda>s. andThen (ensureAnalyser h cfg s) (connectStage h cfg el))
       = (r, s')"
    by (simp add: initializeAudioVisualizer_try_stages)
  obtain rA sA where cA: "ensureContext h s = (rA, sA)" by (metis surj_pair)
  note A = ensureContext_spec[OF cA]
  have kA: "keeps ?F ?A s sA" by (rule keeps_mono[OF _ _ A(1)]) simp_all
  show ?thesis
  proof (cases rA)
    case (Throw e)
    with run cA have rs: "r = Throw e" "s' = sA" by (simp_all add: andThen_def)
    from A(4) Throw have "audioContext s = None \<and> faults h NewAudioContext \<noteq> None" by blast
    then show ?thesis using Some rs kA A(2) by (intro unprepared[of el e]) simp_all
  next
    case Normal
    with run cA have run2: "andThen (ensureAnalyser h cfg sA) (connectStage h cfg el) = (r, s')"
      by (simp add: andThen_def)
    obtain rB sB where cB: "ensureAnalyser h cfg sA = (rB, sB)" by (metis surj_pair)
    note B = ensureAnalyser_spec[OF cB]
    have kB: "keeps ?F ?A sA sB" by (rule keeps_mono[OF _ _ B(1)]) simp_all
    have kAB: "keeps ?F ?A s sB" by (rule keeps_trans[OF kA kB])
    have lAB: "logs_quietly s sB" by (rule logs_quietly_trans[OF A(2) B(2)])
    have anA: "analyser sA = analyser s" using A(1) by (simp add: keeps_def)
    show ?thesis
    proof (cases rB)
      case (Throw e)
      with run2 cB have rs: "r = Throw e" "s' = sB" by (simp_all add: andThen_def)
      from B(4) Throw have "analyser sA = None \<and> faults h CreateAnalyser \<noteq> None" by blast
      with anA have "analyser s = None \<and> faults h CreateAnalyser \<noteq> None" by simp
      then show ?thesis using Some rs kAB lAB by (intro unprepared[of el e]) simp_all
    next
      case NB: Normal
      with run2 cB have st: "connectStage h cfg el sB = (r, s')" by (simp add: andThen_def)
      have "audioContext sB = audioContext sA" using B(1) by (simp add: keeps_def)
      with A(3)[OF Normal] B(3)[OF NB] kAB lAB have prep: "prepared s sB"
        by (simp add: prepared_def)
      show ?thesis
      proof (cases "\<not> isSourceConnected sB \<and> differs el (currentAudioElement sB)")
        case False
        with st have "resumeAndShow h cfg sB = (r, s')" by (simp add: connectStage_def)
        with Some prep False show ?thesis by (intro skip[of el sB]) auto
      next
        case True
        obtain r1 s1 where t1: "tapDirect h el sB = (r1, s1)" by (metis surj_pair)
        show ?thesis
        proof (cases r1)
          case N1: Normal
          with st True t1 have
            "resumeAndShow h cfg (s1\<lparr>currentAudioElement := Some el, isSourceConnected := True\<rparr>)
               = (r, s')"
            by (simp add: connectStage_def)
          with Some prep True t1 N1 show ?thesis by (intro direct[of el sB s1]) simp_all
        next
          case (Throw e)
          let ?s1 = "log ''MediaElementSource failed, attempting captureStream fallback...'' s1"
          obtain r2 s2 where t2: "tapStream h el ?s1 = (r2, s2)" by (metis surj_pair)
          show ?thesis
          proof (cases r2)
            case N2: Normal
            with st True t1 Throw t2 have
              "resumeAndShow h cfg (s2\<lparr>currentAudioElement := Some el, isSourceConnected := True\<rparr>)
                 = (r, s')"
              by (simp add: connectStage_def)
            with Some prep True t1 Throw t2 N2 show ?thesis
              by (intro fallback[of el sB e s1 s2]) simp_all
          next
            case T2: (Throw e2)
            with st True t1 Throw t2 have "r = Normal"
              "s' = console_error e2 (error ''Failed to hook audio for visualization on this platform'' s2)"
              by (simp_all add: connectStage_def)
            with Some prep True t1 Throw t2 T2 show ?thesis
              by (intro failed[of el sB e s1 e2 s2]) simp_all
          qed
        qed
      qed
    qed
  qed
qed

lemma conn_logged_trans:
  assumes "conn_logged s s1" "conn_logged s1 s'"
  shows "conn_logged s s'"
proof -
  from assms(1) obtain ls where
    a: "console s1 = console s @ ls" "attempts ls = 0"
       "(if isSourceConnected s then 1 else 0) + connections ls
          = (if isSourceConnected s1 then 1 else (0::nat))"
    unfolding conn_logged_def by blast
  from assms(2) obtain ms where
    b: "console s' = console s1 @ ms" "attempts ms = 0"
       "(if isSourceConnected s1 then 1 else 0) + connections ms
          = (if isSourceConnected s' then 1 else (0::nat))"
    unfolding conn_logged_def by blast
  have "console s' = console s @ (ls @ ms)" using a(1) b(1) by simp
  moreover have "attempts (ls @ ms) = 0" using a(2) b(2) by (simp add: attempts_def)
  moreover have "(if isSourceConnected s then 1 else 0) + connections (ls @ ms)
                   = (if isSourceConnected s' then 1 else (0::nat))"
    using a(3) b(3) by (simp add: connections_def split: if_splits)
  ultimately show ?thesis unfolding conn_logged_def by blast
qed

lemma quiet_filter:
  assumes "\<forall>l\<in>set ls. quiet_line l"
  shows "connections ls = 0" and "attempts ls = 0"
proof -
  have "filter is_connected_line ls = []"
    using assms by (auto simp: filter_empty_conv quiet_line_def is_connected_line_def)
  then show "connections ls = 0" by (simp add: connections_def)
  have "filter (\<lambda>l. l = attempt_line) ls = []"
    using assms by (auto simp: filter_empty_conv quiet_line_def)
  then show "attempts ls = 0" by (simp add: attempts_def)
qed

lemma conn_logged_quiet:
  assumes "logs_quietly s s'" "isSourceConnected s' = isSourceConnected s"
  shows "conn_logged s s'"
proof -
  from assms(1) obtain ls where
    ls: "console s' = console s @ ls" "\<forall>l\<in>set ls. quiet_line l"
    unfolding logs_quietly_def by blast
  from quiet_filter[OF ls(2)] ls(1) assms(2) show ?thesis
    unfolding conn_logged_def by (intro exI[of _ ls]) simp
qed

lemma conn_logged_connect:
  assumes "console s' = console s @ [l]" "is_connected_line l"
    "\<not> isSourceConnected s" "isSourceConnected s'"
  shows "conn_logged s s'"
proof -
  have "l \<noteq> attempt_line"
    using assms(2)
    by (auto simp: is_connected_line_def attempt_line_def connected_direct_def connected_stream_def)
  with assms show ?thesis
    unfolding conn_logged_def
    by (intro exI[of _ "[l]"]) (simp add: connections_def attempts_def)
qed

lemma prepared_facts:
  assumes "prepared s sB"
  shows "isSourceConnected sB = isSourceConnected s"
    and "currentAudioElement sB = currentAudioElement s"
    and "audioSource sB = audioSource s"
    and "hasTriedInitialization sB = hasTriedInitialization s"
    and "checkCount sB = checkCount s"
    and "logs_quietly s sB"
    and "audioContext sB \<noteq> None" and "analyser sB \<noteq> None"
  using assms by (simp_all add: prepared_def keeps_def)

lemma shown_facts:
  assumes "resumeAndShow h cfg s = (r, s')"
  shows "isSourceConnected s' = isSourceConnected s"
    and "currentAudioElement s' = currentAudioElement s"
    and "audioSource s' = audioSource s"
    and "hasTriedInitialization s' = hasTriedInitialization s"
    and "checkCount s' = checkCount s"
    and "audioContext s' = audioContext s" and "analyser s' = analyser s"
  using resumeAndShow_spec(1)[OF assms]
  by (simp_all add: keeps_def show_fields_def frame_fields_def)

lemma initializeAudioVisualizer_try_connected:
  assumes "initializeAudioVisualizer_try h cfg s = (r, s')" "isSourceConnected s"
  shows "keeps (show_fields \<union> {F_audioContext, F_analyser, F_dataArray})
           (show_apis \<union> {NewAudioContext, CreateAnalyser}) s s'"
    and "logs_quietly s s'"
proof -
  let ?F = "show_fields \<union> {F_audioContext, F_analyser, F_dataArray}"
  let ?A = "show_apis \<union> {NewAudioContext, CreateAnalyser}"
  have upP: "\<And>s s'. keeps {F_audioContext, F_analyser, F_dataArray, F_console}
                      {NewAudioContext, CreateAnalyser} s s' \<Longrightarrow> keeps ?F ?A s s'"
    by (erule keeps_mono[rotated 2]) (auto simp: show_fields_def)
  have upS: "\<And>s s'. keeps show_fields show_apis s s' \<Longrightarrow> keeps ?F ?A s s'"
    by (erule keeps_mono[rotated 2]) auto
  have "keeps ?F ?A s s' \<and> logs_quietly s s'"
    using assms(1)
  proof (cases rule: initializeAudioVisualizer_try_paths)
    case notfound
    then show ?thesis by (simp add: keeps_refl logs_quietly_refl)
  next
    case (unprepared el e)
    then show ?thesis using upP by blast
  next
    case (skip el sB)
    from skip(2) have p: "keeps ?F ?A s sB" "logs_quietly s sB"
      using upP by (simp_all add: prepared_def)
    note rs = resumeAndShow_spec[OF skip(4)]
    from keeps_trans[OF p(1) upS[OF rs(1)]] logs_quietly_trans[OF p(2) rs(2)]
    show ?thesis by simp
  next
    case (direct el sB s1)
    with prepared_facts(1)[OF direct(2)] assms(2) show ?thesis by simp
  next
    case (fallback el sB e s1 s2)
    with prepared_facts(1)[OF fallback(2)] assms(2) show ?thesis by simp
  next
    case (failed el sB e s1 e2 s2)
    with prepared_facts(1)[OF failed(2)] assms(2) show ?thesis by simp
  qed
  then show "keeps ?F ?A s s'" and "logs_quietly s s'" by simp_all
qed

lemma initializeAudioVisualizer_try_logged:
  assumes "initializeAudioVisualizer_try h cfg s = (r, s')"
  shows "conn_logged s s' \<and> hasTriedInitialization s' = hasTriedInitialization s \<and>
         checkCount s' = checkCount s"
  using assms
proof (cases rule: initializeAudioVisualizer_try_paths)
  case notfound
  have g1: "conn_logged s s'" using notfound by (simp add: conn_logged_quiet logs_quietly_refl)
  have g2: "hasTriedInitialization s' = hasTriedInitialization s" using notfound by simp
  have g3: "checkCount s' = checkCount s" using notfound by simp
  show ?thesis using g1 g2 g3 by simp
next
  case (unprepared el e)
  have g1: "conn_logged s s'" using unprepared by (intro conn_logged_quiet) (simp_all add: keeps_def)
  have g2: "hasTriedInitialization s' = hasTriedInitialization s" using unprepared by (simp add: keeps_def)
  have g3: "checkCount s' = checkCount s" using unprepared by (simp add: keeps_def)
  show ?thesis using g1 g2 g3 by simp
next
  case (skip el sB)
  note p = prepared_facts[OF skip(2)]
  note f = shown_facts[OF skip(4)]
  have g1: "conn_logged s s'"
  proof -
    have "logs_quietly s s'"
      by (rule logs_quietly_trans[OF p(6) resumeAndShow_spec(2)[OF skip(4)]])
    then show ?thesis by (rule conn_logged_quiet) (simp add: p f)
  qed
  have g2: "hasTriedInitialization s' = hasTriedInitialization s" by (simp add: p f)
  have g3: "checkCount s' = checkCount s" by (simp add: p f)
  show ?thesis using g1 g2 g3 by simp
next
  case (direct el sB s1)
  note p = prepared_facts[OF direct(2)]
  note t = tapDirect_Normal[OF direct(5)]
  note f = shown_facts[OF direct(6)]
  let ?s1 = "s1\<lparr>currentAudioElement := Some el, isSourceConnected := True\<rparr>"
  have g1: "conn_logged s s'"
  proof -
    have a: "conn_logged s sB" by (rule conn_logged_quiet[OF p(6) p(1)])
    have b: "conn_logged sB ?s1"
      by (rule conn_logged_connect[where l = connected_direct])
         (simp_all add: t(2) is_connected_line_def direct(3))
    have c: "conn_logged ?s1 s'"
      by (rule conn_logged_quiet[OF resumeAndShow_spec(2)[OF direct(6)] f(1)])
    show ?thesis by (rule conn_logged_trans[OF conn_logged_trans[OF a b] c])
  qed
  have g2: "hasTriedInitialization s' = hasTriedInitialization s" using t(1) by (simp add: p f keeps_def)
  have g3: "checkCount s' = checkCount s" using t(1) by (simp add: p f keeps_def)
  show ?thesis using g1 g2 g3 by simp
next
  case (fallback el sB e s1 s2)
  note p = prepared_facts[OF fallback(2)]
  note t1 = tapDirect_Throw[OF fallback(5)]
  note t2 = tapStream_Normal[OF fallback(6)]
  note f = shown_facts[OF fallback(7)]
  let ?s1 = "log ''MediaElementSource failed, attempting captureStream fallback...'' s1"
  let ?s2 = "s2\<lparr>currentAudioElement := Some el, isSourceConnected := True\<rparr>"
  have c1: "isSourceConnected ?s1 = isSourceConnected sB" "console ?s1 = console sB @ [fallback_line]"
    "hasTriedInitialization ?s1 = hasTriedInitialization sB" "checkCount ?s1 = checkCount sB"
    using t1(1) by (simp_all add: keeps_def log_def fallback_line_def)
  have c2: "isSourceConnected s2 = isSourceConnected ?s1"
    "hasTriedInitialization s2 = hasTriedInitialization ?s1" "checkCount s2 = checkCount ?s1"
    using t2(1) by (simp_all add: keeps_def)
  have g1: "conn_logged s s'"
  proof -
    have a: "conn_logged s sB" by (rule conn_logged_quiet[OF p(6) p(1)])
    have b: "conn_logged sB ?s1"
      by (rule conn_logged_quiet[OF logs_quietly_line[OF c1(2) quiet_lines(3)] c1(1)])
    have c: "conn_logged ?s1 ?s2"
      by (rule conn_logged_connect[where l = connected_stream])
         (simp_all add: t2(2) is_connected_line_def c1(1) fallback(3) del: One_nat_def)
    have d: "conn_logged ?s2 s'"
      by (rule conn_logged_quiet[OF resumeAndShow_spec(2)[OF fallback(7)] f(1)])
    show ?thesis
      by (rule conn_logged_trans[OF conn_logged_trans[OF conn_logged_trans[OF a b] c] d])
  qed
  have g2: "hasTriedInitialization s' = hasTriedInitialization s" by (simp add: p f c1 c2)
  have g3: "checkCount s' = checkCount s" by (simp add: p f c1 c2)
  show ?thesis using g1 g2 g3 by simp
next
  case (failed el sB e s1 e2 s2)
  note p = prepared_facts[OF failed(2)]
  note t1 = tapDirect_Throw[OF failed(5)]
  note t2 = tapStream_Throw[OF failed(6)]
  let ?s1 = "log ''MediaElementSource failed, attempting captureStream fallback...'' s1"
  have c1: "isSourceConnected ?s1 = isSourceConnected sB" "console ?s1 = console sB @ [fallback_line]"
    "hasTriedInitialization ?s1 = hasTriedInitialization sB" "checkCount ?s1 = checkCount sB"
    using t1(1) by (simp_all add: keeps_def log_def fallback_line_def)
  have c2: "isSourceConnected s2 = isSourceConnected ?s1" "console s2 = console ?s1"
    "hasTriedInitialization s2 = hasTriedInitialization ?s1" "checkCount s2 = checkCount ?s1"
    using t2(1) by (simp_all add: keeps_def)
  have c3: "isSourceConnected s' = isSourceConnected s2"
    "hasTriedInitialization s' = hasTriedInitialization s2" "checkCount s' = checkCount s2"
    "console s' = console s2 @ [(Err, ''[Audio Visualizer] Failed to hook audio for visualization on this platform''), (Err, exn_text e2)]"
    unfolding failed(8) by (simp_all add: console_error_def error_def)
  have g1: "conn_logged s s'"
  proof -
    have a: "conn_logged s sB" by (rule conn_logged_quiet[OF p(6) p(1)])
    have b: "conn_logged sB ?s1"
      by (rule conn_logged_quiet[OF logs_quietly_line[OF c1(2) quiet_lines(3)] c1(1)])
    have "logs_quietly ?s1 s'"
      unfolding logs_quietly_def using c3(4) c2(2) quiet_lines(2) by auto
    then have c: "conn_logged ?s1 s'"
      by (rule conn_logged_quiet) (simp add: c3 c2)
    show ?thesis by (rule conn_logged_trans[OF conn_logged_trans[OF a b] c])
  qed
  have g2: "hasTriedInitialization s' = hasTriedInitialization s" by (simp add: p c1 c2 c3)
  have g3: "checkCount s' = checkCount s" by (simp add: p c1 c2 c3)
  show ?thesis using g1 g2 g3 by simp
qed

lemma initializeAudioVisualizer_settles:
  assumes "initializeAudioVisualizer h cfg s = (r, s')"
  obtains r0 s0 where "r = Normal" "initializeAudioVisualizer_try h cfg s = (r0, s0)"
    "s' = s0 \<or> (\<exists>e. s' = console_error e s0)"
proof -
  obtain r0 s0 where t: "initializeAudioVisualizer_try h cfg s = (r0, s0)" by (metis surj_pair)
  with assms have "r = Normal" "s' = s0 \<or> (\<exists>e. s' = console_error e s0)"
    by (auto simp: initializeAudioVisualizer_def split: completion.splits)
  with t show ?thesis by (intro that[of r0 s0]) simp_all
qed

lemma console_error_facts:
  "isSourceConnected (console_error e s) = isSourceConnected s"
  "currentAudioElement (console_error e s) = currentAudioElement s"
  "console (console_error e s) = console s @ [(Err, exn_text e)]"
  "hasTriedInitialization (console_error e s) = hasTriedInitialization s"
  "checkCount (console_error e s) = checkCount s"
  "audioContext (console_error e s) = audioContext s"
  "analyser (console_error e s) = analyser s"
  "animationId (console_error e s) = animationId s"
  by (simp_all add: console_error_def)

lemma fallback_path:
  assumes "initializeAudioVisualizer_try h cfg s = (r0, s0)"
    and "findAudioElement h = Some el" and "\<not> isSourceConnected s"
    and "differs el (currentAudioElement s)"
    and "audioContext s \<noteq> None \<or> faults h NewAudioContext = None"
    and "analyser s \<noteq> None \<or> faults h CreateAnalyser = None"
    and "directTapThrows h" and "fallbackSucceeds h el"
  shows "isSourceConnected s0 \<and> currentAudioElement s0 = Some el \<and>
         (\<exists>pre post. console s0 = console s @ pre @ [fallback_line, connected_stream] @ post \<and>
            (\<forall>l\<in>set (pre @ post). quiet_line l))"
  using assms(1)
proof (cases rule: initializeAudioVisualizer_try_paths)
  case notfound
  with assms(2) show ?thesis by simp
next
  case (unprepared el' e)
  from unprepared(5) assms(5,6) have False by argo
  then show ?thesis ..
next
  case (skip el' sB)
  from skip(1,3) prepared_facts(1,2)[OF skip(2)] assms(2,3,4) have False by simp
  then show ?thesis ..
next
  case (direct el' sB s1)
  from tapDirect_Normal(3)[OF direct(5)] assms(7) have False by simp
  then show ?thesis ..
next
  case (failed el' sB e s1 e2 s2)
  from failed(1) tapStream_Throw(2)[OF failed(6)] assms(2,8) have False by simp
  then show ?thesis ..
next
  case (fallback el' sB e s1 s2)
  have el: "el' = el" using fallback(1) assms(2) by simp
  note f = shown_facts[OF fallback(7)]
  from prepared_facts(6)[OF fallback(2)] obtain pre where
    pre: "console sB = console s @ pre" "\<forall>l\<in>set pre. quiet_line l"
    unfolding logs_quietly_def by blast
  from resumeAndShow_spec(2)[OF fallback(7)] obtain post where
    post: "console s0 = console (s2\<lparr>currentAudioElement := Some el',
                                     isSourceConnected := True\<rparr>) @ post"
      "\<forall>l\<in>set post. quiet_line l"
    unfolding logs_quietly_def by blast
  have c1: "console s1 = console sB"
    using tapDirect_Throw(1)[OF fallback(5)] by (simp add: keeps_def)
  have c2: "console s2 = console sB @ [fallback_line, connected_stream]"
    using tapStream_Normal(2)[OF fallback(6)] c1 by (simp add: log_def fallback_line_def)
  have "console s0 = console s @ pre @ [fallback_line, connected_stream] @ post"
    using post(1) c2 pre(1) by simp
  moreover have "\<forall>l\<in>set (pre @ post). quiet_line l" using pre(2) post(2) by auto
  ultimately show ?thesis using f(1,2) el by auto
qed

text \<open>
  Claim C1. A media element is found, no source is connected and the element is not the one
  recorded; the direct tap throws and the stream-capture fallback succeeds. Then the routine
  ends connected: \<open>isSourceConnected\<close> is set and the element is recorded, and the console shows
  the fallback being taken and the connection made through the captured stream, not through
  the element source.
\<close>

theorem fallback_connects:
  assumes "initializeAudioVisualizer h cfg s = (r, s')"
    and "findAudioElement h = Some el" and "\<not> isSourceConnected s"
    and "differs el (currentAudioElement s)"
    and "audioContext s \<noteq> None \<or> faults h NewAudioContext = None"
    and "analyser s \<noteq> None \<or> faults h CreateAnalyser = None"
    and "directTapThrows h" and "fallbackSucceeds h el"
  shows "r = Normal \<and> isSourceConnected s' \<and> currentAudioElement s' = Some el \<and>
         (\<exists>pre post. console s' = console s @ pre @ [fallback_line, connected_stream] @ post \<and>
            (\<forall>l\<in>set (pre @ post). quiet_line l))"
proof -
  from assms(1) obtain r0 s0 where
    r: "r = Normal" and t: "initializeAudioVisualizer_try h cfg s = (r0, s0)" and
    w: "s' = s0 \<or> (\<exists>e. s' = console_error e s0)"
    by (rule initializeAudioVisualizer_settles)
  note core = fallback_path[OF t assms(2-8)]
  from w show ?thesis
  proof
    assume "s' = s0"
    with r core show ?thesis by simp
  next
    assume "\<exists>e. s' = console_error e s0"
    then obtain e where e: "s' = console_error e s0" by blast
    from core obtain pre post where
      c: "console s0 = console s @ pre @ [fallback_line, connected_stream] @ post"
         "\<forall>l\<in>set (pre @ post). quiet_line l"
      by blast
    have "console s' = console s @ pre @ [fallback_line, connected_stream] @ (post @ [(Err, exn_text e)])"
      using c(1) e by (simp add: console_error_facts)
    moreover have "\<forall>l\<in>set (pre @ (post @ [(Err, exn_text e)])). quiet_line l"
      using c(2) quiet_lines(2) by auto
    ultimately have "\<exists>pre post. console s' = console s @ pre @ [fallback_line, connected_stream] @ post \<and>
            (\<forall>l\<in>set (pre @ post). quiet_line l)"
      by blast
    moreover have "isSourceConnected s' \<and> currentAudioElement s' = Some el"
      using core e by (simp add: console_error_facts)
    ultimately show ?thesis using r by blast
  qed
qed

text \<open>
  Claim C2. When the direct tap throws and the fallback fails too (also when the element cannot
  capture a stream), the routine returns without an exception and leaves the audio path
  unconnected: \<open>isSourceConnected\<close> stays false and the recorded element is the one from before
  the call.
\<close>

theorem both_taps_fail:
  assumes "initializeAudioVisualizer h cfg s = (r, s')"
    and "findAudioElement h = Some el" and "\<not> isSourceConnected s"
    and "directTapThrows h" and "\<not> fallbackSucceeds h el"
  shows "r = Normal \<and> \<not> isSourceConnected s' \<and> currentAudioElement s' = currentAudioElement s"
proof -
  from assms(1) obtain r0 s0 where
    r: "r = Normal" and t: "initializeAudioVisualizer_try h cfg s = (r0, s0)" and
    w: "s' = s0 \<or> (\<exists>e. s' = console_error e s0)"
    by (rule initializeAudioVisualizer_settles)
  have core: "\<not> isSourceConnected s0 \<and> currentAudioElement s0 = currentAudioElement s"
    using t
  proof (cases rule: initializeAudioVisualizer_try_paths)
    case notfound
    with assms(3) show ?thesis by simp
  next
    case (unprepared el' e)
    with assms(3) show ?thesis by (simp add: keeps_def)
  next
    case (skip el' sB)
    with prepared_facts(1,2)[OF skip(2)] shown_facts(1,2)[OF skip(4)] assms(3)
    show ?thesis by simp
  next
    case (direct el' sB s1)
    from tapDirect_Normal(3)[OF direct(5)] assms(4) have False by simp
    then show ?thesis ..
  next
    case (fallback el' sB e s1 s2)
    from fallback(1) tapStream_Normal(3)[OF fallback(6)] assms(2,5) have False by simp
    then show ?thesis ..
  next
    case (failed el' sB e s1 e2 s2)
    have "isSourceConnected s2 = isSourceConnected sB \<and> currentAudioElement s2 = currentAudioElement sB"
      using tapDirect_Throw(1)[OF failed(5)] tapStream_Throw(1)[OF failed(6)]
      by (simp add: keeps_def log_def)
    with prepared_facts(1,2)[OF failed(2)] failed(8) assms(3) show ?thesis
      by (simp add: console_error_def error_def)
  qed
  from w core r show ?thesis by (auto simp: console_error_facts)
qed

lemma protected_host_facts:
  "findAudioElement protected_host = Some player"
  "faults protected_host CreateMediaElementSource = Some (DOMException ''InvalidStateError'')"
  "a \<noteq> CreateMediaElementSource \<Longrightarrow> faults protected_host a = None"
  "directTapThrows protected_host"
  "fallbackSucceeds protected_host player"
  by (simp_all add: findAudioElement_def selectors_def protected_host_def quiet_host_def
        player_def directTapThrows_def fallbackSucceeds_def streamOf_def)

lemma no_capture_host_facts:
  "findAudioElement no_capture_host = Some (player\<lparr>captureStream := Unsupported\<rparr>)"
  "directTapThrows no_capture_host"
  "\<not> fallbackSucceeds no_capture_host (player\<lparr>captureStream := Unsupported\<rparr>)"
  by (simp_all add: findAudioElement_def selectors_def no_capture_host_def protected_host_def
        quiet_host_def player_def directTapThrows_def fallbackSucceeds_def streamOf_def)

lemma initial_facts:
  "\<not> isSourceConnected initial_state" "currentAudioElement initial_state = None"
  "audioContext initial_state = None" "analyser initial_state = None"
  "console initial_state = []" "hasTriedInitialization initial_state = False"
  by (simp_all add: initial_state_def)

theorem fallback_connects_witness:
  "fst (initializeAudioVisualizer protected_host (config square_settings) initial_state) = Normal \<and>
   isSourceConnected
     (snd (initializeAudioVisualizer protected_host (config square_settings) initial_state)) \<and>
   currentAudioElement
     (snd (initializeAudioVisualizer protected_host (config square_settings) initial_state))
     = Some player \<and>
   connected_stream \<in> set (console
     (snd (initializeAudioVisualizer protected_host (config square_settings) initial_state)))"
proof -
  let ?r = "initializeAudioVisualizer protected_host (config square_settings) initial_state"
  have e: "?r = (fst ?r, snd ?r)" by simp
  have d: "differs player (currentAudioElement initial_state)"
    by (simp add: differs_def initial_facts)
  have c: "audioContext initial_state \<noteq> None \<or> faults protected_host NewAudioContext = None"
    by (simp add: protected_host_facts(3))
  have a: "analyser initial_state \<noteq> None \<or> faults protected_host CreateAnalyser = None"
    by (simp add: protected_host_facts(3))
  from fallback_connects[OF e protected_host_facts(1) initial_facts(1) d c a
         protected_host_facts(4) protected_host_facts(5)]
  show ?thesis by auto
qed

theorem both_taps_fail_witness:
  "fst (initializeAudioVisualizer no_capture_host (config square_settings) initial_state) = Normal \<and>
   \<not> isSourceConnected
       (snd (initializeAudioVisualizer no_capture_host (config square_settings) initial_state)) \<and>
   currentAudioElement
     (snd (initializeAudioVisualizer no_capture_host (config square_settings) initial_state)) = None"
proof -
  let ?r = "initializeAudioVisualizer no_capture_host (config square_settings) initial_state"
  have e: "?r = (fst ?r, snd ?r)" by simp
  from both_taps_fail[OF e no_capture_host_facts(1) initial_facts(1) no_capture_host_facts(2)
         no_capture_host_facts(3)]
  show ?thesis by (simp add: initial_facts)
qed

section \<open>Properties of the lifecycle controller\<close>

lemma logged_0: "logged 0 s s' = conn_logged s s'"
  by (simp add: logged_def conn_logged_def)

lemma logged_trans:
  assumes "logged j s s1" "logged k s1 s'"
  shows "logged (j + k) s s'"
proof -
  from assms(1) obtain ls where
    a: "console s1 = console s @ ls" "attempts ls = j"
       "(if isSourceConnected s then 1 else 0) + connections ls
          = (if isSourceConnected s1 then 1 else (0::nat))"
    unfolding logged_def by blast
  from assms(2) obtain ms where
    b: "console s' = console s1 @ ms" "attempts ms = k"
       "(if isSourceConnected s1 then 1 else 0) + connections ms
          = (if isSourceConnected s' then 1 else (0::nat))"
    unfolding logged_def by blast
  have "console s' = console s @ (ls @ ms)" using a(1) b(1) by simp
  moreover have "attempts (ls @ ms) = j + k" using a(2) b(2) by (simp add: attempts_def)
  moreover have "(if isSourceConnected s then 1 else 0) + connections (ls @ ms)
                   = (if isSourceConnected s' then 1 else (0::nat))"
    using a(3) b(3) by (simp add: connections_def split: if_splits)
  ultimately show ?thesis unfolding logged_def by blast
qed

lemma logged_same:
  "console s' = console s \<Longrightarrow> isSourceConnected s' = isSourceConnected s \<Longrightarrow> logged 0 s s'"
  by (simp add: logged_def attempts_def connections_def)

lemma logged_quiet:
  "logs_quietly s s' \<Longrightarrow> isSourceConnected s' = isSourceConnected s \<Longrightarrow> logged 0 s s'"
  by (simp add: logged_0 conn_logged_quiet)

lemma logged_attempt:
  assumes "console s' = console s @ [attempt_line]" "isSourceConnected s' = isSourceConnected s"
  shows "logged 1 s s'"
proof -
  have "\<not> is_connected_line attempt_line"
    by (simp add: is_connected_line_def attempt_line_def connected_direct_def connected_stream_def)
  with assms show ?thesis
    unfolding logged_def by (intro exI[of _ "[attempt_line]"]) (simp add: attempts_def connections_def)
qed

lemma initializeAudioVisualizer_logged:
  assumes "initializeAudioVisualizer h cfg s = (r, s')"
  shows "r = Normal" and "logged 0 s s'"
    and "hasTriedInitialization s' = hasTriedInitialization s"
    and "checkCount s' = checkCount s"
proof -
  from assms obtain r0 s0 where
    r: "r = Normal" and t: "initializeAudioVisualizer_try h cfg s = (r0, s0)" and
    w: "s' = s0 \<or> (\<exists>e. s' = console_error e s0)"
    by (rule initializeAudioVisualizer_settles)
  note l = initializeAudioVisualizer_try_logged[OF t]
  show "r = Normal" by (rule r)
  have l0: "logged 0 s s0" using l by (simp add: logged_0)
  from w show "logged 0 s s'"
  proof
    assume "s' = s0" with l0 show ?thesis by simp
  next
    assume "\<exists>e. s' = console_error e s0"
    then obtain e where e: "s' = console_error e s0" by blast
    have "logs_quietly s0 s'"
      unfolding e logs_quietly_def using quiet_lines(2) by (simp add: console_error_facts)
    from logged_trans[OF l0 logged_quiet[OF this]] e show ?thesis
      by (simp add: console_error_facts)
  qed
  from w l show "hasTriedInitialization s' = hasTriedInitialization s"
    by (auto simp: console_error_facts)
  from w l show "checkCount s' = checkCount s"
    by (auto simp: console_error_facts)
qed

lemma keepAnimating_keeps:
  assumes "keepAnimating h cfg s = (c, s')"
  shows "keeps frame_fields render_apis s s'"
proof (cases "animationId s = None")
  case True
  with assms have "animate h cfg s = (c, s')" by (simp add: keepAnimating_def)
  then show ?thesis by (rule animate_keeps)
next
  case False
  with assms show ?thesis by (simp add: keepAnimating_def keeps_refl)
qed

lemma keepAnimating_facts:
  assumes "keepAnimating h cfg s = (c, s')"
  shows "console s' = console s" "isSourceConnected s' = isSourceConnected s"
    "hasTriedInitialization s' = hasTriedInitialization s" "checkCount s' = checkCount s"
    "audioContext s' = audioContext s" "analyser s' = analyser s"
    "audioSource s' = audioSource s" "currentAudioElement s' = currentAudioElement s"
  using keepAnimating_keeps[OF assms] by (simp_all add: keeps_def frame_fields_def)

lemma checkAndInitialize_unfold:
  "checkAndInitialize h cfg s =
     (let s1 = s\<lparr>checkCount := checkCount s + 1\<rparr>
      in if playing h \<and> \<not> hasTriedInitialization s1 then
           (case initializeAudioVisualizer h cfg
                   (log ''Initializing audio visualizer...'' (s1\<lparr>hasTriedInitialization := True\<rparr>)) of
              (settled, s2) \<Rightarrow>
                (case keepAnimating h cfg s2 of
                   (c, s3) \<Rightarrow>
                     (c, if settled = Normal
                         then (if audioContext s3 \<noteq> None \<and> analyser s3 \<noteq> None
                               then log ''Audio visualizer ready!'' s3
                               else s3\<lparr>hasTriedInitialization := False\<rparr>)
                         else s3)))
         else if \<not> playing h \<and> hasTriedInitialization s1 then
           keepAnimating h cfg (s1\<lparr>hasTriedInitialization := False\<rparr>)
         else keepAnimating h cfg s1)"
  unfolding checkAndInitialize_def keepAnimating_def Let_def by (rule refl)

lemma checkAndInitialize_spec:
  assumes "checkAndInitialize h cfg s = (c, s')"
  shows "logged (if playing h \<and> \<not> hasTriedInitialization s then 1 else 0) s s' \<and>
         hasTriedInitialization s' =
           (if playing h \<and> \<not> hasTriedInitialization s
            then audioContext s' \<noteq> None \<and> analyser s' \<noteq> None
            else playing h \<and> hasTriedInitialization s) \<and>
         checkCount s' = Suc (checkCount s)"
proof -
  define s1 where "s1 = s\<lparr>checkCount := checkCount s + 1\<rparr>"
  have s1: "console s1 = console s" "isSourceConnected s1 = isSourceConnected s"
    "hasTriedInitialization s1 = hasTriedInitialization s" "checkCount s1 = Suc (checkCount s)"
    by (simp_all add: s1_def)
  have l1: "logged 0 s s1" by (rule logged_same) (simp_all add: s1)
  consider (attempt) "playing h" "\<not> hasTriedInitialization s"
    | (reset) "\<not> playing h" "hasTriedInitialization s"
    | (idle) "playing h = hasTriedInitialization s"
    by blast
  then show ?thesis
  proof cases
    case attempt
    define sa where
      "sa = log ''Initializing audio visualizer...'' (s1\<lparr>hasTriedInitialization := True\<rparr>)"
    have sa: "console sa = console s1 @ [attempt_line]" "isSourceConnected sa = isSourceConnected s1"
      "hasTriedInitialization sa" "checkCount sa = checkCount s1"
      by (simp_all add: sa_def log_def attempt_line_def)
    obtain settled s2 where i: "initializeAudioVisualizer h cfg sa = (settled, s2)"
      by (metis surj_pair)
    note il = initializeAudioVisualizer_logged[OF i]
    obtain c3 s3 where k: "keepAnimating h cfg s2 = (c3, s3)" by (metis surj_pair)
    note kf = keepAnimating_facts[OF k]
    define s4 where "s4 = (if audioContext s3 \<noteq> None \<and> analyser s3 \<noteq> None
                           then log ''Audio visualizer ready!'' s3
                           else s3\<lparr>hasTriedInitialization := False\<rparr>)"
    have res: "s' = s4"
      using assms attempt i k il(1)
      unfolding checkAndInitialize_unfold Let_def s1_def[symmetric] sa_def[symmetric] s4_def
      by (simp add: s1)
    have s4: "isSourceConnected s4 = isSourceConnected s3" "checkCount s4 = checkCount s3"
      "audioContext s4 = audioContext s3" "analyser s4 = analyser s3"
      "hasTriedInitialization s4 = (audioContext s3 \<noteq> None \<and> analyser s3 \<noteq> None)"
      using kf(3) il(3) sa(3) by (simp_all add: s4_def log_def)
    have q4: "logs_quietly s3 s4"
      unfolding logs_quietly_def s4_def using quiet_lines(6) by (simp add: log_def)
    have "logged (0 + 1 + 0 + 0 + 0) s s4"
      by (intro logged_trans[OF logged_trans[OF logged_trans[OF logged_trans[OF l1
                 logged_attempt[OF sa(1,2)]] il(2)] logged_same[OF kf(1,2)]]
                 logged_quiet[OF q4 s4(1)]])
    then have "logged 1 s s'" using res by simp
    moreover have "hasTriedInitialization s' = (audioContext s' \<noteq> None \<and> analyser s' \<noteq> None)"
      using res s4 by simp
    moreover have "checkCount s' = Suc (checkCount s)"
      using res s4(2) kf(4) il(4) sa(4) s1(4) by simp
    ultimately show ?thesis using attempt by simp
  next
    case reset
    have k: "keepAnimating h cfg (s1\<lparr>hasTriedInitialization := False\<rparr>) = (c, s')"
      using assms reset
      unfolding checkAndInitialize_unfold Let_def s1_def[symmetric] by (simp add: s1)
    note kf = keepAnimating_facts[OF k]
    have "logged 0 s s'" by (rule logged_same) (simp_all add: kf s1)
    with kf reset s1 show ?thesis by simp
  next
    case idle
    have k: "keepAnimating h cfg s1 = (c, s')"
      using assms idle
      unfolding checkAndInitialize_unfold Let_def s1_def[symmetric] by (auto simp: s1)
    note kf = keepAnimating_facts[OF k]
    have "logged 0 s s'" by (rule logged_same) (simp_all add: kf s1)
    with kf idle s1 show ?thesis by auto
  qed
qed

lemma logged_attempts: "logged k s s' \<Longrightarrow> attempts (console s') = attempts (console s) + k"
  by (auto simp: logged_def attempts_def)

lemma poll_step:
  "attempts (console (snd (checkAndInitialize h cfg s)))
     = attempts (console s) + (if playing h \<and> \<not> hasTriedInitialization s then 1 else 0)"
  "hasTriedInitialization (snd (checkAndInitialize h cfg s)) =
     (if playing h \<and> \<not> hasTriedInitialization s
      then audioContext (snd (checkAndInitialize h cfg s)) \<noteq> None \<and>
           analyser (snd (checkAndInitialize h cfg s)) \<noteq> None
      else playing h \<and> hasTriedInitialization s)"
proof -
  have e: "checkAndInitialize h cfg s = (fst (checkAndInitialize h cfg s), snd (checkAndInitialize h cfg s))"
    by simp
  note sp = checkAndInitialize_spec[OF e]
  from sp show "attempts (console (snd (checkAndInitialize h cfg s)))
     = attempts (console s) + (if playing h \<and> \<not> hasTriedInitialization s then 1 else 0)"
    using logged_attempts by blast
  from sp show "hasTriedInitialization (snd (checkAndInitialize h cfg s)) =
     (if playing h \<and> \<not> hasTriedInitialization s
      then audioContext (snd (checkAndInitialize h cfg s)) \<noteq> None \<and>
           analyser (snd (checkAndInitialize h cfg s)) \<noteq> None
      else playing h \<and> hasTriedInitialization s)"
    by blast
qed

lemma polls_while_playing:
  "\<forall>h\<in>set hs. playing h \<Longrightarrow> hasTriedInitialization s \<Longrightarrow>
     attempts (console (polls hs cfg s)) = attempts (console s) \<and>
     hasTriedInitialization (polls hs cfg s)"
proof (induction hs arbitrary: s)
  case Nil
  then show ?case by simp
next
  case (Cons h hs)
  let ?s1 = "snd (checkAndInitialize h cfg s)"
  have "hasTriedInitialization ?s1" "attempts (console ?s1) = attempts (console s)"
    using poll_step[of h cfg s] Cons.prems by simp_all
  with Cons.IH[of ?s1] Cons.prems(1) show ?case by simp
qed

lemma rising_edge_attempt:
  assumes "\<not> playing h1" "playing h2"
  shows "attempts (console (polls [h1, h2] cfg s)) = attempts (console s) + 1"
proof -
  let ?s1 = "snd (checkAndInitialize h1 cfg s)"
  have "\<not> hasTriedInitialization ?s1" "attempts (console ?s1) = attempts (console s)"
    using poll_step[of h1 cfg s] assms(1) by simp_all
  with poll_step(1)[of h2 cfg ?s1] assms(2) show ?thesis by simp
qed

text \<open>
  Claim C9, as amended. A poll attempts acquisition exactly when the signal is playing and the
  ``have tried'' flag is clear. The attempt sets the flag; the flag is cleared again when,
  after the attempt, the audio context or the analyser is missing, and at every poll that
  observes not-playing. So: while polls keep observing playing after an attempt that left
  context and analyser in place, no further attempt is made; and a poll observing playing
  right after one observing not-playing makes an attempt.
\<close>

theorem poll_policy:
  "attempts (console (snd (checkAndInitialize h cfg s)))
     = attempts (console s) + (if playing h \<and> \<not> hasTriedInitialization s then 1 else 0) \<and>
   hasTriedInitialization (snd (checkAndInitialize h cfg s)) =
     (if playing h \<and> \<not> hasTriedInitialization s
      then audioContext (snd (checkAndInitialize h cfg s)) \<noteq> None \<and>
           analyser (snd (checkAndInitialize h cfg s)) \<noteq> None
      else playing h \<and> hasTriedInitialization s) \<and>
   ((\<forall>h\<in>set hs. playing h) \<and> hasTriedInitialization s \<longrightarrow>
      attempts (console (polls hs cfg s)) = attempts (console s) \<and>
      hasTriedInitialization (polls hs cfg s)) \<and>
   (\<not> playing h1 \<and> playing h2 \<longrightarrow>
      attempts (console (polls [h1, h2] cfg s)) = attempts (console s) + 1)"
  using poll_step[of h cfg s] polls_while_playing[of hs s cfg] rising_edge_attempt[of h1 h2 cfg s]
  by blast

lemma initializeAudioVisualizer_notfound:
  "findAudioElement h = None \<Longrightarrow> initializeAudioVisualizer h cfg s = (Normal, s)"
  by (simp add: initializeAudioVisualizer_def initializeAudioVisualizer_try_stages)

lemma checkAndInitialize_notfound:
  assumes "findAudioElement h = None"
  shows "audioContext (snd (checkAndInitialize h cfg s)) = audioContext s"
proof -
  define s1 where "s1 = s\<lparr>checkCount := checkCount s + 1\<rparr>"
  have a: "audioContext s1 = audioContext s" "hasTriedInitialization s1 = hasTriedInitialization s"
    by (simp_all add: s1_def)
  have k: "\<And>s. audioContext (snd (keepAnimating h cfg s)) = audioContext s"
    using keepAnimating_facts(5)[OF surjective_pairing] by blast
  consider (attempt) "playing h" "\<not> hasTriedInitialization s"
    | (reset) "\<not> playing h" "hasTriedInitialization s"
    | (idle) "playing h = hasTriedInitialization s"
    by blast
  then show ?thesis
  proof cases
    case attempt
    define sa where
      "sa = log ''Initializing audio visualizer...'' (s1\<lparr>hasTriedInitialization := True\<rparr>)"
    have sa: "audioContext sa = audioContext s" by (simp add: sa_def log_def a)
    obtain c3 s3 where k3: "keepAnimating h cfg sa = (c3, s3)" by (metis surj_pair)
    have a3: "audioContext s3 = audioContext s" using k[of sa] k3 sa by simp
    define s4 where "s4 = (if audioContext s3 \<noteq> None \<and> analyser s3 \<noteq> None
                           then log ''Audio visualizer ready!'' s3
                           else s3\<lparr>hasTriedInitialization := False\<rparr>)"
    have "snd (checkAndInitialize h cfg s) = s4"
      using attempt k3
      unfolding checkAndInitialize_unfold Let_def s1_def[symmetric] sa_def[symmetric] s4_def
      by (simp add: a initializeAudioVisualizer_notfound[OF assms])
    moreover have "audioContext s4 = audioContext s3" by (simp add: s4_def log_def)
    ultimately show ?thesis using a3 by simp
  next
    case reset
    have "snd (checkAndInitialize h cfg s)
            = snd (keepAnimating h cfg (s1\<lparr>hasTriedInitialization := False\<rparr>))"
      using reset unfolding checkAndInitialize_unfold Let_def s1_def[symmetric] by (simp add: a)
    then show ?thesis using k[of "s1\<lparr>hasTriedInitialization := False\<rparr>"] a by simp
  next
    case idle
    have "snd (checkAndInitialize h cfg s) = snd (keepAnimating h cfg s1)"
      using idle unfolding checkAndInitialize_unfold Let_def s1_def[symmetric] by (auto simp: a)
    then show ?thesis using k[of s1] a by simp
  qed
qed

lemma initializeAudioVisualizer_prepares:
  assumes "initializeAudioVisualizer h cfg s = (r, s')" "findAudioElement h = Some el"
    "faults h NewAudioContext = None" "faults h CreateAnalyser = None"
  shows "audioContext s' \<noteq> None \<and> analyser s' \<noteq> None"
proof -
  from assms(1) obtain r0 s0 where
    t: "initializeAudioVisualizer_try h cfg s = (r0, s0)" and
    w: "s' = s0 \<or> (\<exists>e. s' = console_error e s0)"
    by (rule initializeAudioVisualizer_settles)
  have "audioContext s0 \<noteq> None \<and> analyser s0 \<noteq> None"
    using t
  proof (cases rule: initializeAudioVisualizer_try_paths)
    case notfound
    with assms(2) show ?thesis by simp
  next
    case (unprepared el' e)
    with assms(3,4) show ?thesis by simp
  next
    case (skip el' sB)
    with prepared_facts(7,8)[OF skip(2)] shown_facts(6,7)[OF skip(4)] show ?thesis by simp
  next
    case (direct el' sB s1)
    have "audioContext s1 = audioContext sB \<and> analyser s1 = analyser sB"
      using tapDirect_Normal(1)[OF direct(5)] by (simp add: keeps_def)
    with prepared_facts(7,8)[OF direct(2)] shown_facts(6,7)[OF direct(6)] show ?thesis by simp
  next
    case (fallback el' sB e s1 s2)
    have "audioContext s2 = audioContext sB \<and> analyser s2 = analyser sB"
      using tapDirect_Throw(1)[OF fallback(5)] tapStream_Normal(1)[OF fallback(6)]
      by (simp add: keeps_def log_def)
    with prepared_facts(7,8)[OF fallback(2)] shown_facts(6,7)[OF fallback(7)] show ?thesis
      by simp
  next
    case (failed el' sB e s1 e2 s2)
    have "audioContext s2 = audioContext sB \<and> analyser s2 = analyser sB"
      using tapDirect_Throw(1)[OF failed(5)] tapStream_Throw(1)[OF failed(6)]
      by (simp add: keeps_def log_def)
    with prepared_facts(7,8)[OF failed(2)] failed(8) show ?thesis
      by (simp add: console_error_def error_def)
  qed
  with w show ?thesis by (auto simp: console_error_facts)
qed

lemma checkAndInitialize_prepares:
  assumes "playing h" "\<not> hasTriedInitialization s" "findAudioElement h = Some el"
    "faults h NewAudioContext = None" "faults h CreateAnalyser = None"
  shows "audioContext (snd (checkAndInitialize h cfg s)) \<noteq> None \<and>
         analyser (snd (checkAndInitialize h cfg s)) \<noteq> None"
proof -
  define s1 where "s1 = s\<lparr>checkCount := checkCount s + 1\<rparr>"
  define sa where
    "sa = log ''Initializing audio visualizer...'' (s1\<lparr>hasTriedInitialization := True\<rparr>)"
  have a: "hasTriedInitialization s1 = hasTriedInitialization s" by (simp add: s1_def)
  obtain settled s2 where i: "initializeAudioVisualizer h cfg sa = (settled, s2)"
    by (metis surj_pair)
  note p = initializeAudioVisualizer_prepares[OF i assms(3,4,5)]
  obtain c3 s3 where k: "keepAnimating h cfg s2 = (c3, s3)" by (metis surj_pair)
  note kf = keepAnimating_facts[OF k]
  define s4 where "s4 = (if audioContext s3 \<noteq> None \<and> analyser s3 \<noteq> None
                         then log ''Audio visualizer ready!'' s3
                         else s3\<lparr>hasTriedInitialization := False\<rparr>)"
  have "snd (checkAndInitialize h cfg s) = s4"
    using assms(1,2) i k initializeAudioVisualizer_logged(1)[OF i]
    unfolding checkAndInitialize_unfold Let_def s1_def[symmetric] sa_def[symmetric] s4_def
    by (simp add: a)
  moreover have "audioContext s4 = audioContext s3 \<and> analyser s4 = analyser s3"
    by (simp add: s4_def log_def)
  ultimately show ?thesis using p kf(5,6) by simp
qed

lemma searching_host_facts:
  "playing searching_host" "findAudioElement searching_host = None"
  by (simp_all add: searching_host_def quiet_host_def findAudioElement_def selectors_def)

lemma attempts_Nil: "attempts [] = 0"
  by (simp add: attempts_def)

theorem poll_policy_counterexample:
  "attempts (console (polls [searching_host, searching_host] (config square_settings)
                        initial_state)) = 2 \<and>
   risingEdges False (map playing [searching_host, searching_host]) = 1"
proof -
  let ?cfg = "config square_settings"
  let ?s1 = "snd (checkAndInitialize searching_host ?cfg initial_state)"
  have n1: "attempts (console ?s1) = 1"
    using poll_step(1)[of searching_host ?cfg initial_state]
    by (simp add: searching_host_facts initial_facts attempts_Nil)
  have "audioContext ?s1 = None"
    using checkAndInitialize_notfound[OF searching_host_facts(2), of ?cfg initial_state]
    by (simp add: initial_facts)
  then have t1: "\<not> hasTriedInitialization ?s1"
    using poll_step(2)[of searching_host ?cfg initial_state]
    by (simp add: searching_host_facts initial_facts)
  have "attempts (console (snd (checkAndInitialize searching_host ?cfg ?s1))) = 2"
    using poll_step(1)[of searching_host ?cfg ?s1] n1 t1
    by (simp add: searching_host_facts)
  then show ?thesis by (simp add: searching_host_facts)
qed

theorem poll_policy_witness:
  "hasTriedInitialization
     (snd (checkAndInitialize protected_host (config square_settings) initial_state)) \<and>
   attempts (console (polls [protected_host, protected_host] (config square_settings)
       (snd (checkAndInitialize protected_host (config square_settings) initial_state)))) = 1 \<and>
   attempts (console (polls [quiet_host, protected_host] (config square_settings)
       initial_state)) = 1"
proof -
  let ?cfg = "config square_settings"
  let ?s1 = "snd (checkAndInitialize protected_host ?cfg initial_state)"
  have pl: "playing protected_host" "\<not> playing quiet_host"
    by (simp_all add: protected_host_def quiet_host_def)
  have rdy: "audioContext ?s1 \<noteq> None \<and> analyser ?s1 \<noteq> None"
    by (rule checkAndInitialize_prepares[OF pl(1) _ protected_host_facts(1)])
       (simp_all add: initial_facts protected_host_facts(3))
  note pp = poll_policy[of protected_host ?cfg initial_state "[protected_host, protected_host]"]
  have t1: "hasTriedInitialization ?s1" and n1: "attempts (console ?s1) = 1"
    using pp rdy by (simp_all add: pl initial_facts attempts_Nil)
  have all: "\<forall>h\<in>set [protected_host, protected_host]. playing h" by (simp add: pl)
  from poll_policy[of protected_host ?cfg ?s1 "[protected_host, protected_host]"
         quiet_host protected_host] all t1 n1
  have a: "attempts (console (polls [protected_host, protected_host] ?cfg ?s1)) = 1" by simp
  from poll_policy[of protected_host ?cfg initial_state "[]" quiet_host protected_host] pl
  have b: "attempts (console (polls [quiet_host, protected_host] ?cfg initial_state)) = 1"
    by (simp add: initial_facts attempts_Nil)
  from t1 a b show ?thesis by simp
qed

section \<open>Persistence of the connection\<close>

lemma safe_connection:
  "keeps safe_fields safe_apis s s' \<Longrightarrow> isSourceConnected s \<Longrightarrow> keeps_connection s s'"
  by (auto simp: keeps_def safe_fields_def safe_apis_def keeps_connection_def calls_within_def)

lemma safe_apis_mem:
  "show_apis \<union> {NewAudioContext, CreateAnalyser} \<subseteq> safe_apis"
  "render_apis \<subseteq> safe_apis" "{CancelAnimationFrame} \<subseteq> safe_apis" "{} \<subseteq> safe_apis"
  by (auto simp: safe_apis_def show_apis_def render_apis_def draw_apis_def connect_apis_def
        teardown_apis_def)

lemma safe_fields_mem:
  "show_fields \<union> {F_audioContext, F_analyser, F_dataArray} \<subseteq> safe_fields"
  "frame_fields \<subseteq> safe_fields"
  "{F_visualizerContainer, F_canvas, F_canvasContext, F_console} \<subseteq> safe_fields"
  by (auto simp: safe_fields_def show_fields_def frame_fields_def)

lemma safe_update:
  "keeps safe_fields safe_apis s (s\<lparr>checkCount := n\<rparr>)"
  "keeps safe_fields safe_apis s (s\<lparr>hasTriedInitialization := b\<rparr>)"
  "keeps safe_fields safe_apis s (s\<lparr>animationId := i\<rparr>)"
  "keeps safe_fields safe_apis s (log m s)"
  "keeps safe_fields safe_apis s (console_error e s)"
  "keeps safe_fields safe_apis s (removeVisualizerUI s)"
  "keeps safe_fields safe_apis s (cancelAnimationFrame k s)"
  by (simp_all add: keeps_def safe_fields_def calls_within_def log_def console_error_def
        removeVisualizerUI_def cancelAnimationFrame_def called_def safe_apis_def
        connect_apis_def teardown_apis_def)

lemma initializeAudioVisualizer_safe:
  assumes "initializeAudioVisualizer h cfg s = (r, s')" "isSourceConnected s"
  shows "keeps safe_fields safe_apis s s'"
proof -
  from assms(1) obtain r0 s0 where
    t: "initializeAudioVisualizer_try h cfg s = (r0, s0)" and
    w: "s' = s0 \<or> (\<exists>e. s' = console_error e s0)"
    by (rule initializeAudioVisualizer_settles)
  have k: "keeps safe_fields safe_apis s s0"
    by (rule keeps_mono[OF safe_fields_mem(1) safe_apis_mem(1)
               initializeAudioVisualizer_try_connected(1)[OF t assms(2)]])
  from w show ?thesis
  proof
    assume "s' = s0" with k show ?thesis by simp
  next
    assume "\<exists>e. s' = console_error e s0"
    then obtain e where "s' = console_error e s0" by blast
    with keeps_trans[OF k safe_update(5)[of s0 e]] show ?thesis by simp
  qed
qed

lemma keepAnimating_safe:
  "keepAnimating h cfg s = (c, s') \<Longrightarrow> keeps safe_fields safe_apis s s'"
  by (rule keeps_mono[OF safe_fields_mem(2) safe_apis_mem(2) keepAnimating_keeps])

lemma checkAndInitialize_safe:
  assumes "checkAndInitialize h cfg s = (c, s')" "isSourceConnected s"
  shows "keeps safe_fields safe_apis s s'"
proof -
  define s1 where "s1 = s\<lparr>checkCount := checkCount s + 1\<rparr>"
  have k1: "keeps safe_fields safe_apis s s1" unfolding s1_def by (rule safe_update(1))
  have a: "hasTriedInitialization s1 = hasTriedInitialization s"
    "isSourceConnected s1 = isSourceConnected s" by (simp_all add: s1_def)
  consider (attempt) "playing h" "\<not> hasTriedInitialization s"
    | (reset) "\<not> playing h" "hasTriedInitialization s"
    | (idle) "playing h = hasTriedInitialization s"
    by blast
  then show ?thesis
  proof cases
    case attempt
    define sa where
      "sa = log ''Initializing audio visualizer...'' (s1\<lparr>hasTriedInitialization := True\<rparr>)"
    have ka: "keeps safe_fields safe_apis s1 sa"
      unfolding sa_def by (rule keeps_trans[OF safe_update(2) safe_update(4)])
    have ca: "isSourceConnected sa" using assms(2) by (simp add: sa_def log_def a)
    obtain settled s2 where i: "initializeAudioVisualizer h cfg sa = (settled, s2)"
      by (metis surj_pair)
    note k2 = initializeAudioVisualizer_safe[OF i ca]
    obtain c3 s3 where k: "keepAnimating h cfg s2 = (c3, s3)" by (metis surj_pair)
    note k3 = keepAnimating_safe[OF k]
    define s4 where "s4 = (if audioContext s3 \<noteq> None \<and> analyser s3 \<noteq> None
                           then log ''Audio visualizer ready!'' s3
                           else s3\<lparr>hasTriedInitialization := False\<rparr>)"
    have k4: "keeps safe_fields safe_apis s3 s4"
      unfolding s4_def using safe_update(2,4) by simp
    have "s' = s4"
      using assms(1) attempt i k initializeAudioVisualizer_logged(1)[OF i]
      unfolding checkAndInitialize_unfold Let_def s1_def[symmetric] sa_def[symmetric] s4_def
      by (simp add: a)
    with keeps_trans[OF keeps_trans[OF keeps_trans[OF keeps_trans[OF k1 ka] k2] k3] k4]
    show ?thesis by simp
  next
    case reset
    have "keepAnimating h cfg (s1\<lparr>hasTriedInitialization := False\<rparr>) = (c, s')"
      using assms(1) reset
      unfolding checkAndInitialize_unfold Let_def s1_def[symmetric] by (simp add: a)
    from keeps_trans[OF keeps_trans[OF k1 safe_update(2)] keepAnimating_safe[OF this]]
    show ?thesis .
  next
    case idle
    have "keepAnimating h cfg s1 = (c, s')"
      using assms(1) idle
      unfolding checkAndInitialize_unfold Let_def s1_def[symmetric] by (auto simp: a)
    from keeps_trans[OF k1 keepAnimating_safe[OF this]] show ?thesis .
  qed
qed

lemma updateAudioVisualizer_safe: "keeps safe_fields safe_apis s (updateAudioVisualizer h cfg s)"
proof -
  define s1 where "s1 = (if analyser s \<noteq> None
                then s\<lparr>analyser := Some \<lparr>fftSize = 512, smoothingTimeConstant = smoothing cfg\<rparr>,
                       dataArray := Some (replicate (512 div 2) 0)\<rparr>
                else s)"
  define s2 where "s2 = (if canvas s1 \<noteq> None
                then s1\<lparr>canvas := Some \<lparr>canvas_width = width cfg, canvas_height = height cfg\<rparr>\<rparr>
                else s1)"
  have k1: "keeps safe_fields safe_apis s s1"
    by (simp add: s1_def keeps_def safe_fields_def calls_within_def)
  have k2: "keeps safe_fields safe_apis s1 s2"
    by (simp add: s2_def keeps_def safe_fields_def calls_within_def)
  have k3: "keeps safe_fields safe_apis s2 (createVisualizerUI h cfg s2)"
    by (rule keeps_mono[OF safe_fields_mem(3) safe_apis_mem(4) createVisualizerUI_spec(1)])
  have "updateAudioVisualizer h cfg s = createVisualizerUI h cfg s2"
    unfolding updateAudioVisualizer_def Let_def s1_def s2_def by (rule refl)
  with keeps_trans[OF keeps_trans[OF k1 k2] k3] show ?thesis by simp
qed

lemma cleanupAudioVisualizer_safe: "keeps safe_fields safe_apis s (cleanupAudioVisualizer s)"
proof (cases "animationId s")
  case None
  then show ?thesis by (simp add: cleanupAudioVisualizer_def safe_update(6))
next
  case (Some n)
  have "keeps safe_fields safe_apis s
          (removeVisualizerUI ((cancelAnimationFrame n s)\<lparr>animationId := None\<rparr>))"
    by (rule keeps_trans[OF keeps_trans[OF safe_update(7) safe_update(3)] safe_update(6)])
  with Some show ?thesis by (simp add: cleanupAudioVisualizer_def)
qed

lemma step_safe:
  assumes "isSourceConnected s"
  shows "keeps safe_fields safe_apis s (step h cfg ev s)"
proof (cases ev)
  case Poll
  have "checkAndInitialize h cfg s
          = (fst (checkAndInitialize h cfg s), snd (checkAndInitialize h cfg s))" by simp
  from checkAndInitialize_safe[OF this assms] Poll show ?thesis by simp
next
  case Frame
  have "animate h cfg s = (fst (animate h cfg s), snd (animate h cfg s))" by simp
  from keeps_mono[OF safe_fields_mem(2) safe_apis_mem(2) animate_keeps[OF this]] Frame
  show ?thesis by simp
next
  case SettingsChanged
  with updateAudioVisualizer_safe show ?thesis by simp
next
  case Cleanup
  with cleanupAudioVisualizer_safe show ?thesis by simp
qed

lemma run_safe:
  "isSourceConnected s \<Longrightarrow> keeps safe_fields safe_apis s (run evs s)"
proof (induction evs arbitrary: s)
  case Nil
  show ?case by (simp add: keeps_refl)
next
  case (Cons x evs)
  obtain h cfg ev where x: "x = (h, cfg, ev)" by (cases x)
  note k = step_safe[OF Cons.prems, of h cfg ev]
  then have "isSourceConnected (step h cfg ev s)"
    using Cons.prems by (simp add: keeps_def safe_fields_def)
  from keeps_trans[OF k Cons.IH[OF this]] x show ?case by simp
qed

lemma step_logged: "\<exists>k. logged k s (step h cfg ev s)"
proof (cases ev)
  case Poll
  have "checkAndInitialize h cfg s
          = (fst (checkAndInitialize h cfg s), snd (checkAndInitialize h cfg s))" by simp
  from checkAndInitialize_spec[OF this] Poll show ?thesis by auto
next
  case Frame
  have "animate h cfg s = (fst (animate h cfg s), snd (animate h cfg s))" by simp
  from animate_keeps[OF this] have "logged 0 s (snd (animate h cfg s))"
    by (intro logged_same) (simp_all add: keeps_def frame_fields_def)
  with Frame show ?thesis by auto
next
  case SettingsChanged
  define s1 where "s1 = (if analyser s \<noteq> None
                then s\<lparr>analyser := Some \<lparr>fftSize = 512, smoothingTimeConstant = smoothing cfg\<rparr>,
                       dataArray := Some (replicate (512 div 2) 0)\<rparr>
                else s)"
  define s2 where "s2 = (if canvas s1 \<noteq> None
                then s1\<lparr>canvas := Some \<lparr>canvas_width = width cfg, canvas_height = height cfg\<rparr>\<rparr>
                else s1)"
  have e: "updateAudioVisualizer h cfg s = createVisualizerUI h cfg s2"
    unfolding updateAudioVisualizer_def Let_def s1_def s2_def by (rule refl)
  have c: "console s2 = console s" "isSourceConnected s2 = isSourceConnected s"
    by (simp_all add: s2_def s1_def)
  have "logged 0 s s2" by (rule logged_same[OF c])
  moreover have "logged 0 s2 (createVisualizerUI h cfg s2)"
    using createVisualizerUI_spec[of s2 h cfg]
    by (intro logged_quiet) (simp_all add: keeps_def)
  ultimately have "logged (0 + 0) s (createVisualizerUI h cfg s2)" by (rule logged_trans)
  with SettingsChanged e show ?thesis by auto
next
  case Cleanup
  have "logged 0 s (cleanupAudioVisualizer s)"
    by (rule logged_same)
       (simp_all add: cleanupAudioVisualizer_def removeVisualizerUI_def cancelAnimationFrame_def
          called_def split: option.splits)
  with Cleanup show ?thesis by auto
qed

lemma run_logged: "\<exists>k. logged k s (run evs s)"
proof (induction evs arbitrary: s)
  case Nil
  have "logged 0 s s" by (rule logged_same) simp_all
  then show ?case by auto
next
  case (Cons x evs)
  obtain h cfg ev where x: "x = (h, cfg, ev)" by (cases x)
  from step_logged[of s h cfg ev] obtain j where j: "logged j s (step h cfg ev s)" by blast
  from Cons.IH[of "step h cfg ev s"] obtain k where
    k: "logged k (step h cfg ev s) (run evs (step h cfg ev s))" by blast
  from logged_trans[OF j k] x show ?case by auto
qed

lemma logged_connections:
  assumes "logged k s s'"
  shows "(if isSourceConnected s then 1 else 0)
           + connections (drop (length (console s)) (console s')) \<le> (1::nat)"
proof -
  from assms obtain ls where
    ls: "console s' = console s @ ls"
        "(if isSourceConnected s then 1 else 0) + connections ls
           = (if isSourceConnected s' then 1 else (0::nat))"
    unfolding logged_def by blast
  then show ?thesis by (simp split: if_splits)
qed

lemma completeCleanup_Normal:
  assumes "completeCleanup h s = (Normal, s')"
  shows "\<not> isSourceConnected s' \<and> audioSource s' = None \<and> currentAudioElement s' = None \<and>
         audioContext s' = None \<and> analyser s' = None"
  using assms unfolding completeCleanup_def Let_def andThen_Normal by auto

text \<open>
  Claim C3. Once a source is connected, the acquisition routine makes no further connection
  attempt: the connection marks stay and none of the calls that create or connect a source is
  made. Nothing but the full shutdown tears the connection down: the clean-up that is not the
  shutdown, and every run of polls, frames, settings changes and such clean-ups, leave
  \<open>isSourceConnected\<close>, the source and the recorded element as they are and make no disconnecting
  or closing call. Hence in any such run at most one connection is made: the console gains at
  most one ``Connected via'' line, and none when the run starts connected. The full shutdown,
  when it completes, resets the connection.
\<close>

theorem connection_persists:
  "(isSourceConnected s \<longrightarrow> keeps_connection s (snd (initializeAudioVisualizer h cfg s))) \<and>
   (isSourceConnected s \<longrightarrow> keeps_connection s (cleanupAudioVisualizer s)) \<and>
   (isSourceConnected s \<longrightarrow> keeps_connection s (run evs s)) \<and>
   (if isSourceConnected s then 1 else 0)
      + connections (drop (length (console s)) (console (run evs s))) \<le> (1::nat) \<and>
   (completeCleanup h s = (Normal, s') \<longrightarrow> \<not> isSourceConnected s' \<and> audioSource s' = None)"
proof (intro conjI impI)
  assume c: "isSourceConnected s"
  have "initializeAudioVisualizer h cfg s
          = (fst (initializeAudioVisualizer h cfg s), snd (initializeAudioVisualizer h cfg s))"
    by simp
  from safe_connection[OF initializeAudioVisualizer_safe[OF this c] c]
  show "keeps_connection s (snd (initializeAudioVisualizer h cfg s))" .
next
  assume c: "isSourceConnected s"
  show "keeps_connection s (cleanupAudioVisualizer s)"
    by (rule safe_connection[OF cleanupAudioVisualizer_safe c])
next
  assume c: "isSourceConnected s"
  show "keeps_connection s (run evs s)"
    by (rule safe_connection[OF run_safe[OF c] c])
next
  from run_logged[of s evs] obtain k where "logged k s (run evs s)" by blast
  then show "(if isSourceConnected s then 1 else 0)
      + connections (drop (length (console s)) (console (run evs s))) \<le> (1::nat)"
    by (rule logged_connections)
next
  assume "completeCleanup h s = (Normal, s')"
  from completeCleanup_Normal[OF this] show "\<not> isSourceConnected s'" by simp
next
  assume "completeCleanup h s = (Normal, s')"
  from completeCleanup_Normal[OF this] show "audioSource s' = None" by simp
qed

lemma connected_state_connected: "isSourceConnected connected_state"
proof -
  let ?r = "initializeAudioVisualizer protected_host (config square_settings) initial_state"
  have "?r = (fst ?r, snd ?r)" by simp
  then obtain r0 s0 where
    t: "initializeAudioVisualizer_try protected_host (config square_settings) initial_state
          = (r0, s0)" and
    w: "snd ?r = s0 \<or> (\<exists>e. snd ?r = console_error e s0)"
    by (rule initializeAudioVisualizer_settles)
  have d: "differs player (currentAudioElement initial_state)"
    by (simp add: differs_def initial_facts)
  have c: "audioContext initial_state \<noteq> None \<or> faults protected_host NewAudioContext = None"
    by (simp add: protected_host_facts(3))
  have a: "analyser initial_state \<noteq> None \<or> faults protected_host CreateAnalyser = None"
    by (simp add: protected_host_facts(3))
  from fallback_path[OF t protected_host_facts(1) initial_facts(1) d c a
         protected_host_facts(4) protected_host_facts(5)]
  have "isSourceConnected s0" by simp
  with w show ?thesis by (auto simp: connected_state_def console_error_facts)
qed

lemma completeCleanup_completes:
  "faults h ContextClose = None \<Longrightarrow> fst (completeCleanup h s) = Normal"
  by (simp add: completeCleanup_def Let_def hostcall_def andThen_def split: prod.splits)

theorem connection_persists_witness:
  "keeps_connection connected_state
     (snd (initializeAudioVisualizer protected_host (config square_settings) connected_state)) \<and>
   keeps_connection connected_state (cleanupAudioVisualizer connected_state) \<and>
   keeps_connection connected_state
     (run [(protected_host, config square_settings, Poll),
           (quiet_host, config rounded_settings, Frame),
           (quiet_host, config rounded_settings, SettingsChanged),
           (protected_host, config square_settings, Poll),
           (quiet_host, config square_settings, Cleanup)] connected_state) \<and>
   \<not> isSourceConnected (snd (completeCleanup quiet_host connected_state))"
proof -
  let ?evs = "[(protected_host, config square_settings, Poll),
           (quiet_host, config rounded_settings, Frame),
           (quiet_host, config rounded_settings, SettingsChanged),
           (protected_host, config square_settings, Poll),
           (quiet_host, config square_settings, Cleanup)]"
  have q: "faults quiet_host ContextClose = None" by (simp add: quiet_host_def)
  have e: "completeCleanup quiet_host connected_state
             = (Normal, snd (completeCleanup quiet_host connected_state))"
    by (rule completes_eq[OF completeCleanup_completes[OF q]])
  from connection_persists[of connected_state protected_host "config square_settings" ?evs]
       connection_persists[of connected_state quiet_host "config square_settings" ?evs
         "snd (completeCleanup quiet_host connected_state)"]
       connected_state_connected e
  show ?thesis by blast
qed

end
